theory Spec2Isabelle
  imports Main "HOL-Library.Word"
begin

section \<open>Memory model\<close>

text \<open>
  The container of \<^verbatim>\<open>vector.h\<close> works on raw memory: \<^verbatim>\<open>operator new\<close> hands out a block,
  objects are constructed into its slots by placement new and destroyed by hand.
  A block is a list of slots; a slot is \<open>None\<close> while it is uninitialised memory and
  \<open>Some x\<close> while a live object of value \<open>x\<close> sits in it. A block is named by its base
  address; address \<open>0\<close> is \<^verbatim>\<open>nullptr\<close>. A pointer \<^verbatim>\<open>T*\<close> is a base address and an
  offset counted in elements.

  \<^verbatim>\<open>size_t\<close> is taken to be 64 bits wide. Quantities of that type are kept as \<open>nat\<close>,
  and the product \<^verbatim>\<open>n * sizeof(T)\<close> of \<^verbatim>\<open>Allocate\<close>, whose factor \<open>n\<close> is any number a
  caller passes, is computed on 64-bit words and wraps around. The other arithmetic of
  the source on them is on the size of a vector whose elements sit in a block:
  \<^verbatim>\<open>size_ * 2\<close> and \<^verbatim>\<open>++size_\<close> (a block takes less than \<open>2 ^ 63\<close> bytes), \<^verbatim>\<open>--size_\<close>
  under the guard \<^verbatim>\<open>size_ > 0\<close>, and pointer offsets, which are checked against the block
  they point into. A data member \<^verbatim>\<open>x_\<close> of the source is the record field \<open>m_x\<close>.
\<close>

type_synonym addr = nat
type_synonym ptr = "addr \<times> nat"

datatype exn = BadAlloc | ElemThrow

text \<open>
  The result of running a piece of the source: normal return with a value, an exception
  that propagates (with the state it leaves behind), or undefined behaviour (a failed
  \<^verbatim>\<open>assert\<close>, a read of uninitialised memory, an access outside a block).
\<close>

datatype ('r, 's) outcome = Ok 'r 's | Throw exn 's | Undefined

record RawMemory =
  m_buffer :: addr
  m_capacity :: nat

record Vector =
  m_data :: RawMemory
  m_size :: nat

text \<open>
  The program state: the allocator (the blocks handed out and not yet released, the next
  address it will hand out, the number of element slots it can still provide) and the
  \<^verbatim>\<open>Vector\<close> objects that exist, by name.
\<close>

record 'a state =
  blocks :: "addr \<Rightarrow> 'a option list option"
  next_addr :: addr
  avail :: nat
  vecs :: "nat \<Rightarrow> Vector option"

definition nullptr :: ptr where
  "nullptr = (0, 0)"

definition empty_RawMemory :: RawMemory where
  "empty_RawMemory = \<lparr>m_buffer = 0, m_capacity = 0\<rparr>"

section \<open>The element type\<close>

text \<open>
  What the container needs to know of its element type \<^verbatim>\<open>T\<close>: the two compile-time
  queries the source makes, which of its operations throw (as a function of the value
  they read), the value a moved-from object is left with, what value
  initialisation gives (\<open>None\<close> when that constructor throws), and \<^verbatim>\<open>sizeof(T)\<close>. Copying and moving
  produce an object of the value of their source. A trivially copyable type has
  \<open>moved_from = (\<lambda>x. x)\<close>; a \<^verbatim>\<open>std::string\<close> is left empty by a move.
  Destructors do not throw.
\<close>

record 'a traits =
  is_nothrow_move_constructible :: bool
  is_copy_constructible :: bool
  copy_ctor_throws :: "'a \<Rightarrow> bool"
  move_ctor_throws :: "'a \<Rightarrow> bool"
  copy_assign_throws :: "'a \<Rightarrow> bool"
  move_assign_throws :: "'a \<Rightarrow> bool"
  moved_from :: "'a \<Rightarrow> 'a"
  value_init :: "'a option"
  sizeof :: nat

section \<open>RawMemory\<close>

text \<open>
  \<^verbatim>\<open>operator new(bytes)\<close> returns a block that is not in use, never the null address
  (also for a request of 0 bytes), or throws \<^verbatim>\<open>std::bad_alloc\<close>. A block of \<open>bytes\<close>
  bytes has room for \<open>bytes div sizeof(T)\<close> objects of type \<^verbatim>\<open>T\<close>.
\<close>

definition operator_new :: "'a traits \<Rightarrow> 'a state \<Rightarrow> nat \<Rightarrow> (addr, 'a state) outcome" where
  "operator_new T s bytes =
     (if avail s < bytes div sizeof T then Throw BadAlloc s
      else Ok (next_addr s)
              (s\<lparr>blocks := (blocks s)(next_addr s := Some (replicate (bytes div sizeof T) None)),
                 next_addr := Suc (next_addr s),
                 avail := avail s - bytes div sizeof T\<rparr>))"

text \<open>
  \<^verbatim>\<open>Allocate(n)\<close>: \<^verbatim>\<open>n != 0 ? operator new(n * sizeof(T)) : nullptr\<close>. The product is
  computed in \<^verbatim>\<open>size_t\<close>: when \<open>n * sizeof(T)\<close> is \<open>2 ^ 64\<close> or more, the block requested is
  smaller than \<open>n\<close> objects.
\<close>

definition Allocate :: "'a traits \<Rightarrow> 'a state \<Rightarrow> nat \<Rightarrow> (addr, 'a state) outcome" where
  "Allocate T s n =
     (if n \<noteq> 0
      then operator_new T s (unat (word_of_nat n * word_of_nat (sizeof T) :: 64 word))
      else Ok 0 s)"

text \<open>\<^verbatim>\<open>Deallocate(buf)\<close>: \<^verbatim>\<open>operator delete(buf)\<close>; nothing happens on the null address.\<close>

definition Deallocate :: "'a state \<Rightarrow> addr \<Rightarrow> 'a state" where
  "Deallocate s buf =
     (if buf = 0 then s
      else (case blocks s buf of
              None \<Rightarrow> s
            | Some b \<Rightarrow> s\<lparr>blocks := (blocks s)(buf := None), avail := avail s + length b\<rparr>))"

text \<open>
  \<^verbatim>\<open>RawMemory(size_t capacity)\<close>: \<^verbatim>\<open>buffer_(Allocate(capacity)), capacity_(capacity)\<close>.
\<close>

definition RawMemory_ctor :: "'a traits \<Rightarrow> 'a state \<Rightarrow> nat \<Rightarrow> (RawMemory, 'a state) outcome" where
  "RawMemory_ctor T s capacity =
     (case Allocate T s capacity of
        Ok a s' \<Rightarrow> Ok \<lparr>m_buffer = a, m_capacity = capacity\<rparr> s'
      | Throw e s' \<Rightarrow> Throw e s'
      | Undefined \<Rightarrow> Undefined)"

text \<open>\<^verbatim>\<open>~RawMemory()\<close>.\<close>

definition RawMemory_dtor :: "'a state \<Rightarrow> RawMemory \<Rightarrow> 'a state" where
  "RawMemory_dtor s m = Deallocate s (m_buffer m)"

text \<open>
  \<^verbatim>\<open>RawMemory(RawMemory&& other)\<close>: returns the new object and what is left in \<open>other\<close>.
\<close>

definition RawMemory_move_ctor :: "RawMemory \<Rightarrow> RawMemory \<times> RawMemory" where
  "RawMemory_move_ctor other =
     (\<lparr>m_buffer = m_buffer other, m_capacity = m_capacity other\<rparr>,
      other\<lparr>m_buffer := 0, m_capacity := 0\<rparr>)"

text \<open>\<^verbatim>\<open>Swap(RawMemory& other)\<close> on two objects: returns the new \<open>this\<close> and the new \<open>other\<close>.\<close>

definition RawMemory_Swap :: "RawMemory \<Rightarrow> RawMemory \<Rightarrow> RawMemory \<times> RawMemory" where
  "RawMemory_Swap this other =
     (this\<lparr>m_buffer := m_buffer other, m_capacity := m_capacity other\<rparr>,
      other\<lparr>m_buffer := m_buffer this, m_capacity := m_capacity this\<rparr>)"

text \<open>
  \<^verbatim>\<open>operator=(RawMemory&& rhs)\<close> is not embedded. Its body starts with
  \<^verbatim>\<open>buffer_.~RawMemory();\<close>, a destructor call of the class on the pointer member, which
  is ill-formed once the member function is instantiated; no function of \<^verbatim>\<open>vector.h\<close>
  assigns a \<^verbatim>\<open>RawMemory\<close>, so it never is: \<^verbatim>\<open>Vector\<close> uses the constructors, \<^verbatim>\<open>Swap\<close>
  and the destructor only.
\<close>

text \<open>The data invariant the specification gives for a raw storage.\<close>

definition RawMemory_inv :: "RawMemory \<Rightarrow> bool" where
  "RawMemory_inv m \<longleftrightarrow> (m_capacity m = 0) = (m_buffer m = 0)"


section \<open>Constructor arguments\<close>

text \<open>
  A reference \<^verbatim>\<open>const T&\<close> or \<^verbatim>\<open>T&&\<close> received by a member function: it is bound to an
  object outside the storage of the vectors (a local or a temporary of the caller,
  given by its value, which the call does not change), or to the object at an address
  in a block, which is read when the function uses the reference.
\<close>

datatype 'a ref = Obj 'a | At ptr

text \<open>
  The constructor arguments forwarded by \<^verbatim>\<open>Emplace\<close>: an lvalue of type \<^verbatim>\<open>T\<close> (copy
  construction), an rvalue of type \<^verbatim>\<open>T\<close> (move construction), or the arguments of
  some other constructor, given by what that constructor produces (\<open>None\<close> when it
  throws). The type \<open>'r\<close> is that of the references.
\<close>

datatype ('a, 'r) ctor_args = CopyOf 'r | MoveOf 'r | Args "'a option"

text \<open>A \<^verbatim>\<open>noexcept\<close> move constructor does not let an exception out.\<close>

definition move_throws :: "'a traits \<Rightarrow> 'a \<Rightarrow> bool" where
  "move_throws T x \<longleftrightarrow> \<not> is_nothrow_move_constructible T \<and> move_ctor_throws T x"

section \<open>Slots and objects\<close>

definition then_do ::
  "('r, 's) outcome \<Rightarrow> ('r \<Rightarrow> 's \<Rightarrow> ('q, 's) outcome) \<Rightarrow> ('q, 's) outcome" where
  "then_do m f = (case m of Ok r s \<Rightarrow> f r s | Throw e s \<Rightarrow> Throw e s | Undefined \<Rightarrow> Undefined)"

text \<open>
  \<^verbatim>\<open>try { m } catch (...) { cleanup; throw; }\<close>, and also the unwinding of a local object
  whose destructor is \<open>cleanup\<close>.
\<close>

definition on_throw ::
  "('r, 's) outcome \<Rightarrow> ('s \<Rightarrow> (unit, 's) outcome) \<Rightarrow> ('r, 's) outcome" where
  "on_throw m cleanup =
     (case m of
        Ok r s \<Rightarrow> Ok r s
      | Throw e s \<Rightarrow> then_do (cleanup s) (\<lambda>_ s'. Throw e s')
      | Undefined \<Rightarrow> Undefined)"

definition ptr_add :: "ptr \<Rightarrow> nat \<Rightarrow> ptr" where
  "ptr_add p k = (fst p, snd p + k)"

text \<open>The live object at \<open>p\<close>, if there is one.\<close>

definition read_at :: "'a state \<Rightarrow> ptr \<Rightarrow> 'a option" where
  "read_at s p =
     (case blocks s (fst p) of
        None \<Rightarrow> None
      | Some b \<Rightarrow> if snd p < length b then b ! snd p else None)"

definition in_block :: "'a state \<Rightarrow> ptr \<Rightarrow> bool" where
  "in_block s p = (case blocks s (fst p) of None \<Rightarrow> False | Some b \<Rightarrow> snd p < length b)"

definition put_slot :: "'a state \<Rightarrow> ptr \<Rightarrow> 'a option \<Rightarrow> 'a state" where
  "put_slot s p v =
     s\<lparr>blocks := (blocks s)(fst p := map_option (\<lambda>b. b[snd p := v]) (blocks s (fst p)))\<rparr>"

text \<open>\<^verbatim>\<open>new (p) T(...)\<close> once the constructor has produced \<open>x\<close>.\<close>

definition construct_at :: "'a state \<Rightarrow> ptr \<Rightarrow> 'a \<Rightarrow> (unit, 'a state) outcome" where
  "construct_at s p x = (if in_block s p then Ok () (put_slot s p (Some x)) else Undefined)"

text \<open>\<^verbatim>\<open>std::destroy_at(p)\<close>.\<close>

definition destroy_at :: "'a state \<Rightarrow> ptr \<Rightarrow> (unit, 'a state) outcome" where
  "destroy_at s p = (if read_at s p \<noteq> None then Ok () (put_slot s p None) else Undefined)"

text \<open>\<^verbatim>\<open>new (dst) T(*src)\<close>.\<close>

definition copy_construct :: "'a traits \<Rightarrow> 'a state \<Rightarrow> ptr \<Rightarrow> ptr \<Rightarrow> (unit, 'a state) outcome" where
  "copy_construct T s src dst =
     (if \<not> is_copy_constructible T then Undefined
      else case read_at s src of
        None \<Rightarrow> Undefined
      | Some x \<Rightarrow> if copy_ctor_throws T x then Throw ElemThrow s else construct_at s dst x)"

text \<open>\<^verbatim>\<open>new (dst) T(std::move(*src))\<close>.\<close>

definition move_construct :: "'a traits \<Rightarrow> 'a state \<Rightarrow> ptr \<Rightarrow> ptr \<Rightarrow> (unit, 'a state) outcome" where
  "move_construct T s src dst =
     (case read_at s src of
        None \<Rightarrow> Undefined
      | Some x \<Rightarrow>
          if move_throws T x then Throw ElemThrow s
          else then_do (construct_at s dst x)
                 (\<lambda>_ s1. Ok () (put_slot s1 src (Some (moved_from T x)))))"

text \<open>
  \<^verbatim>\<open>new (dst) T(std::forward<Args>(args)...)\<close>: the object a reference is bound to is
  read at this point, and an object moved from is left in its moved-from state.
\<close>

definition deref :: "'a state \<Rightarrow> 'a ref \<Rightarrow> 'a option" where
  "deref s r = (case r of Obj x \<Rightarrow> Some x | At p \<Rightarrow> read_at s p)"

definition leave_moved_from :: "'a traits \<Rightarrow> 'a state \<Rightarrow> 'a ref \<Rightarrow> 'a \<Rightarrow> 'a state" where
  "leave_moved_from T s r x =
     (case r of Obj y \<Rightarrow> s | At p \<Rightarrow> put_slot s p (Some (moved_from T x)))"

definition construct_from ::
  "'a traits \<Rightarrow> 'a state \<Rightarrow> ptr \<Rightarrow> ('a, 'a ref) ctor_args \<Rightarrow> (unit, 'a state) outcome" where
  "construct_from T s dst args =
     (case args of
        CopyOf r \<Rightarrow>
          (case deref s r of
             None \<Rightarrow> Undefined
           | Some x \<Rightarrow> if copy_ctor_throws T x then Throw ElemThrow s else construct_at s dst x)
      | MoveOf r \<Rightarrow>
          (case deref s r of
             None \<Rightarrow> Undefined
           | Some x \<Rightarrow>
               if move_throws T x then Throw ElemThrow s
               else then_do (construct_at s dst x)
                      (\<lambda>_ s1. Ok () (leave_moved_from T s1 r x)))
      | Args v \<Rightarrow>
          (case v of None \<Rightarrow> Throw ElemThrow s | Some x \<Rightarrow> construct_at s dst x))"

text \<open>\<^verbatim>\<open>*dst = *src\<close>.\<close>

definition copy_assign :: "'a traits \<Rightarrow> 'a state \<Rightarrow> ptr \<Rightarrow> ptr \<Rightarrow> (unit, 'a state) outcome" where
  "copy_assign T s src dst =
     (case read_at s src of
        None \<Rightarrow> Undefined
      | Some x \<Rightarrow>
          if read_at s dst = None then Undefined
          else if copy_assign_throws T x then Throw ElemThrow s
          else Ok () (put_slot s dst (Some x)))"

text \<open>\<^verbatim>\<open>*dst = std::move(*src)\<close>.\<close>

definition move_assign :: "'a traits \<Rightarrow> 'a state \<Rightarrow> ptr \<Rightarrow> ptr \<Rightarrow> (unit, 'a state) outcome" where
  "move_assign T s src dst =
     (case read_at s src of
        None \<Rightarrow> Undefined
      | Some x \<Rightarrow>
          if read_at s dst = None then Undefined
          else if move_assign_throws T x then Throw ElemThrow s
          else Ok () (put_slot (put_slot s dst (Some x)) src (Some (moved_from T x))))"

section \<open>The algorithms of the standard library the source calls\<close>

text \<open>\<^verbatim>\<open>std::destroy_n(p, n)\<close>.\<close>

fun destroy_n :: "'a state \<Rightarrow> ptr \<Rightarrow> nat \<Rightarrow> (unit, 'a state) outcome" where
  "destroy_n s p 0 = Ok () s"
| "destroy_n s p (Suc n) = then_do (destroy_at s p) (\<lambda>_ s1. destroy_n s1 (ptr_add p 1) n)"

text \<open>
  \<^verbatim>\<open>std::uninitialized_copy_n(src, n, dst)\<close>: when a copy throws, the objects constructed
  so far are destroyed and the exception goes on.
\<close>

fun uninitialized_copy_n ::
  "'a traits \<Rightarrow> 'a state \<Rightarrow> ptr \<Rightarrow> nat \<Rightarrow> ptr \<Rightarrow> (unit, 'a state) outcome" where
  "uninitialized_copy_n T s src 0 dst = Ok () s"
| "uninitialized_copy_n T s src (Suc n) dst =
     then_do (copy_construct T s src dst)
       (\<lambda>_ s1. on_throw (uninitialized_copy_n T s1 (ptr_add src 1) n (ptr_add dst 1))
                  (\<lambda>s2. destroy_at s2 dst))"

text \<open>\<^verbatim>\<open>std::uninitialized_move_n(src, n, dst)\<close>, with the same clean-up.\<close>

fun uninitialized_move_n ::
  "'a traits \<Rightarrow> 'a state \<Rightarrow> ptr \<Rightarrow> nat \<Rightarrow> ptr \<Rightarrow> (unit, 'a state) outcome" where
  "uninitialized_move_n T s src 0 dst = Ok () s"
| "uninitialized_move_n T s src (Suc n) dst =
     then_do (move_construct T s src dst)
       (\<lambda>_ s1. on_throw (uninitialized_move_n T s1 (ptr_add src 1) n (ptr_add dst 1))
                  (\<lambda>s2. destroy_at s2 dst))"

text \<open>\<^verbatim>\<open>std::uninitialized_value_construct_n(p, n)\<close>, with the same clean-up.\<close>

fun uninitialized_value_construct_n ::
  "'a traits \<Rightarrow> 'a state \<Rightarrow> ptr \<Rightarrow> nat \<Rightarrow> (unit, 'a state) outcome" where
  "uninitialized_value_construct_n T s p 0 = Ok () s"
| "uninitialized_value_construct_n T s p (Suc n) =
     (case value_init T of
        None \<Rightarrow> Throw ElemThrow s
      | Some x \<Rightarrow>
          then_do (construct_at s p x)
            (\<lambda>_ s1. on_throw (uninitialized_value_construct_n T s1 (ptr_add p 1) n)
                       (\<lambda>s2. destroy_at s2 p)))"

text \<open>
  \<^verbatim>\<open>std::copy(first, first + n, d_first)\<close> and \<^verbatim>\<open>std::move(first, first + n, d_first)\<close>:
  assignments from the front.
\<close>

fun std_copy :: "'a traits \<Rightarrow> 'a state \<Rightarrow> ptr \<Rightarrow> nat \<Rightarrow> ptr \<Rightarrow> (unit, 'a state) outcome" where
  "std_copy T s first 0 d_first = Ok () s"
| "std_copy T s first (Suc n) d_first =
     then_do (copy_assign T s first d_first)
       (\<lambda>_ s1. std_copy T s1 (ptr_add first 1) n (ptr_add d_first 1))"

fun std_move :: "'a traits \<Rightarrow> 'a state \<Rightarrow> ptr \<Rightarrow> nat \<Rightarrow> ptr \<Rightarrow> (unit, 'a state) outcome" where
  "std_move T s first 0 d_first = Ok () s"
| "std_move T s first (Suc n) d_first =
     then_do (move_assign T s first d_first)
       (\<lambda>_ s1. std_move T s1 (ptr_add first 1) n (ptr_add d_first 1))"

text \<open>
  \<^verbatim>\<open>std::move_backward(first, first + n, d_last)\<close>: \<^verbatim>\<open>*(--d_last) = std::move(*(--last))\<close>
  while \<^verbatim>\<open>first != last\<close>, so the last element of the range is moved first.
\<close>

fun std_move_backward ::
  "'a traits \<Rightarrow> 'a state \<Rightarrow> ptr \<Rightarrow> nat \<Rightarrow> ptr \<Rightarrow> (unit, 'a state) outcome" where
  "std_move_backward T s first 0 d_last = Ok () s"
| "std_move_backward T s first (Suc n) d_last =
     (if snd d_last = 0 then Undefined
      else then_do (move_assign T s (ptr_add first n) (fst d_last, snd d_last - 1))
             (\<lambda>_ s1. std_move_backward T s1 first n (fst d_last, snd d_last - 1)))"

section \<open>Vector\<close>

text \<open>\<^verbatim>\<open>RawMemory::operator+(offset)\<close>, with its assertion, and \<^verbatim>\<open>GetAddress()\<close>.\<close>

definition RawMemory_plus :: "RawMemory \<Rightarrow> nat \<Rightarrow> ptr option" where
  "RawMemory_plus m offset = (if offset \<le> m_capacity m then Some (m_buffer m, offset) else None)"

definition GetAddress :: "RawMemory \<Rightarrow> ptr" where
  "GetAddress m = (m_buffer m, 0)"

definition Capacity :: "Vector \<Rightarrow> nat" where
  "Capacity V = m_capacity (m_data V)"

definition Size :: "Vector \<Rightarrow> nat" where
  "Size V = m_size V"

definition begin_of :: "Vector \<Rightarrow> ptr" where
  "begin_of V = GetAddress (m_data V)"

definition end_of :: "Vector \<Rightarrow> ptr" where
  "end_of V = ptr_add (GetAddress (m_data V)) (m_size V)"

definition empty_Vector :: Vector where
  "empty_Vector = \<lparr>m_data = empty_RawMemory, m_size = 0\<rparr>"

definition set_vec :: "'a state \<Rightarrow> nat \<Rightarrow> Vector \<Rightarrow> 'a state" where
  "set_vec s this V = s\<lparr>vecs := (vecs s)(this := Some V)\<rparr>"

text \<open>The unwinding of a local \<^verbatim>\<open>RawMemory<T> data\<close>.\<close>

definition unwind_raw :: "RawMemory \<Rightarrow> 'a state \<Rightarrow> (unit, 'a state) outcome" where
  "unwind_raw m s = Ok () (RawMemory_dtor s m)"

text \<open>\<^verbatim>\<open>Vector() = default\<close>: a new object \<open>this\<close>.\<close>

definition Vector_default :: "'a state \<Rightarrow> nat \<Rightarrow> (unit, 'a state) outcome" where
  "Vector_default s this =
     (if vecs s this \<noteq> None then Undefined else Ok () (set_vec s this empty_Vector))"

text \<open>
  \<^verbatim>\<open>Vector(size_t size)\<close>. When value initialisation throws, the member \<^verbatim>\<open>data_\<close> is
  destroyed and no object comes into being.
\<close>

definition Vector_sized :: "'a traits \<Rightarrow> 'a state \<Rightarrow> nat \<Rightarrow> nat \<Rightarrow> (unit, 'a state) outcome" where
  "Vector_sized T s this n =
     (if vecs s this \<noteq> None then Undefined
      else then_do (RawMemory_ctor T s n)
        (\<lambda>d s1. then_do (on_throw (uninitialized_value_construct_n T s1 (GetAddress d) n)
                           (unwind_raw d))
           (\<lambda>_ s2. Ok () (set_vec s2 this \<lparr>m_data = d, m_size = n\<rparr>))))"

text \<open>
  \<^verbatim>\<open>Vector(const Vector& other)\<close>, as a value: the copy assignment operator builds a local
  copy with it.
\<close>

definition copy_of :: "'a traits \<Rightarrow> 'a state \<Rightarrow> Vector \<Rightarrow> (Vector, 'a state) outcome" where
  "copy_of T s other =
     then_do (RawMemory_ctor T s (m_size other))
       (\<lambda>d s1. then_do (on_throw (uninitialized_copy_n T s1 (GetAddress (m_data other))
                                     (m_size other) (GetAddress d))
                          (unwind_raw d))
          (\<lambda>_ s2. Ok \<lparr>m_data = d, m_size = m_size other\<rparr> s2))"

definition Vector_copy :: "'a traits \<Rightarrow> 'a state \<Rightarrow> nat \<Rightarrow> nat \<Rightarrow> (unit, 'a state) outcome" where
  "Vector_copy T s this other =
     (if vecs s this \<noteq> None then Undefined
      else case vecs s other of
        None \<Rightarrow> Undefined
      | Some W \<Rightarrow> then_do (copy_of T s W) (\<lambda>V s1. Ok () (set_vec s1 this V)))"

text \<open>\<^verbatim>\<open>~Vector()\<close> on a value: the elements are destroyed, then the member \<^verbatim>\<open>data_\<close>.\<close>

definition destroy_vec :: "'a state \<Rightarrow> Vector \<Rightarrow> (unit, 'a state) outcome" where
  "destroy_vec s V =
     then_do (destroy_n s (GetAddress (m_data V)) (m_size V))
       (\<lambda>_ s1. Ok () (RawMemory_dtor s1 (m_data V)))"

definition Vector_dtor :: "'a state \<Rightarrow> nat \<Rightarrow> (unit, 'a state) outcome" where
  "Vector_dtor s this =
     (case vecs s this of
        None \<Rightarrow> Undefined
      | Some V \<Rightarrow> then_do (destroy_vec s V)
                   (\<lambda>_ s1. Ok () (s1\<lparr>vecs := (vecs s1)(this := None)\<rparr>)))"

text \<open>
  \<^verbatim>\<open>Swap(Vector& other)\<close>: \<^verbatim>\<open>data_.Swap(other.data_); std::swap(size_, other.size_);\<close>.
  \<open>this\<close> is written first and \<open>other\<close> second, which leaves the object as it was
  when both names are the same object.
\<close>

definition Swap :: "'a state \<Rightarrow> nat \<Rightarrow> nat \<Rightarrow> (unit, 'a state) outcome" where
  "Swap s this other =
     (case (vecs s this, vecs s other) of
        (Some V, Some W) \<Rightarrow>
          (let d = RawMemory_Swap (m_data V) (m_data W);
               s1 = set_vec s this \<lparr>m_data = fst d, m_size = m_size W\<rparr>
           in Ok () (set_vec s1 other \<lparr>m_data = snd d, m_size = m_size V\<rparr>))
      | _ \<Rightarrow> Undefined)"

text \<open>
  \<^verbatim>\<open>operator=(const Vector& rhs)\<close>.
  \<^verbatim>\<open>
    if (this != &rhs) {
        if (rhs.size_ > data_.Capacity()) { Vector rhs_copy(rhs); Swap(rhs_copy); }
        else {
            if (rhs.size_ < size_) {
                std::copy(rhs.data_.GetAddress(), rhs.data_.GetAddress() + rhs.size_, data_.GetAddress());
                std::destroy_n(data_.GetAddress() + rhs.size_, size_ - rhs.size_);
            } else {
                std::copy(rhs.data_.GetAddress(), rhs.data_.GetAddress() + size_, data_.GetAddress());
                std::uninitialized_copy_n(rhs.data_.GetAddress() + size_, rhs.size_ - size_, data_.GetAddress() + size_);
            }
            size_ = rhs.size_;
        }
    }
  \<close>
  The local \<^verbatim>\<open>rhs_copy\<close> holds the old contents of \<open>this\<close> after the swap and is destroyed
  at the end of its block.
\<close>

definition Vector_copy_assign ::
  "'a traits \<Rightarrow> 'a state \<Rightarrow> nat \<Rightarrow> nat \<Rightarrow> (unit, 'a state) outcome" where
  "Vector_copy_assign T s this rhs =
     (case (vecs s this, vecs s rhs) of
        (Some V, Some R) \<Rightarrow>
          if this \<noteq> rhs then
            (if m_size R > Capacity V then
               then_do (copy_of T s R)
                 (\<lambda>C s1. destroy_vec (set_vec s1 this C) V)
             else
               then_do
                 (if m_size R < m_size V then
                    then_do (std_copy T s (GetAddress (m_data R)) (m_size R) (GetAddress (m_data V)))
                      (\<lambda>_ s1. destroy_n s1 (ptr_add (GetAddress (m_data V)) (m_size R))
                                 (m_size V - m_size R))
                  else
                    then_do (std_copy T s (GetAddress (m_data R)) (m_size V) (GetAddress (m_data V)))
                      (\<lambda>_ s1. uninitialized_copy_n T s1
                                 (ptr_add (GetAddress (m_data R)) (m_size V))
                                 (m_size R - m_size V)
                                 (ptr_add (GetAddress (m_data V)) (m_size V))))
                 (\<lambda>_ s2. Ok () (set_vec s2 this (V\<lparr>m_size := m_size R\<rparr>))))
          else Ok () s
      | _ \<Rightarrow> Undefined)"

text \<open>
  \<^verbatim>\<open>Vector(Vector&& other) noexcept { Swap(other); }\<close>: the members of the new object
  have their default initialisers before the swap.
\<close>

definition Vector_move :: "'a state \<Rightarrow> nat \<Rightarrow> nat \<Rightarrow> (unit, 'a state) outcome" where
  "Vector_move s this other =
     (if vecs s this \<noteq> None then Undefined
      else Swap (set_vec s this empty_Vector) this other)"

text \<open>\<^verbatim>\<open>operator=(Vector&& rhs) noexcept { if (this != &rhs) { Swap(rhs); } return *this; }\<close>.\<close>

definition Vector_move_assign :: "'a state \<Rightarrow> nat \<Rightarrow> nat \<Rightarrow> (unit, 'a state) outcome" where
  "Vector_move_assign s this rhs =
     (case (vecs s this, vecs s rhs) of
        (Some V, Some R) \<Rightarrow> if this \<noteq> rhs then Swap s this rhs else Ok () s
      | _ \<Rightarrow> Undefined)"

text \<open>\<^verbatim>\<open>CreateCopy(size_t capacity)\<close>.\<close>

definition CreateCopy :: "'a traits \<Rightarrow> 'a state \<Rightarrow> Vector \<Rightarrow> nat \<Rightarrow> (RawMemory, 'a state) outcome" where
  "CreateCopy T s V capacity =
     then_do (RawMemory_ctor T s capacity)
       (\<lambda>d s1. then_do
          (on_throw
             (if is_nothrow_move_constructible T \<or> \<not> is_copy_constructible T
              then uninitialized_move_n T s1 (GetAddress (m_data V)) (Size V) (GetAddress d)
              else uninitialized_copy_n T s1 (GetAddress (m_data V)) (Size V) (GetAddress d))
             (unwind_raw d))
          (\<lambda>_ s2. Ok d s2))"

text \<open>
  \<^verbatim>\<open>Reserve(size_t capacity)\<close>.
  \<^verbatim>\<open>
    if (capacity <= data_.Capacity()) { return; }
    RawMemory<T> data(CreateCopy(capacity));
    data_.Swap(data);
    std::destroy_n(data.GetAddress(), Size());
  \<close>
  and the local \<^verbatim>\<open>data\<close>, now the old storage, is released on return.
\<close>

definition Reserve :: "'a traits \<Rightarrow> 'a state \<Rightarrow> nat \<Rightarrow> nat \<Rightarrow> (unit, 'a state) outcome" where
  "Reserve T s this capacity =
     (case vecs s this of
        None \<Rightarrow> Undefined
      | Some V \<Rightarrow>
          if capacity \<le> m_capacity (m_data V) then Ok () s
          else then_do (CreateCopy T s V capacity)
            (\<lambda>d s1.
               let sw = RawMemory_Swap (m_data V) d;
                   s2 = set_vec s1 this (V\<lparr>m_data := fst sw\<rparr>)
               in then_do (destroy_n s2 (GetAddress (snd sw)) (Size V))
                    (\<lambda>_ s3. Ok () (RawMemory_dtor s3 (snd sw)))))"

text \<open>\<^verbatim>\<open>PopBack()\<close>.\<close>

definition PopBack :: "'a state \<Rightarrow> nat \<Rightarrow> (unit, 'a state) outcome" where
  "PopBack s this =
     (case vecs s this of
        None \<Rightarrow> Undefined
      | Some V \<Rightarrow>
          if m_size V > 0 then
            then_do (destroy_at s (ptr_add (GetAddress (m_data V)) (m_size V - 1)))
              (\<lambda>_ s1. Ok () (set_vec s1 this (V\<lparr>m_size := m_size V - 1\<rparr>)))
          else Ok () s)"

text \<open>
  \<^verbatim>\<open>Resize(size_t count)\<close>.
  \<^verbatim>\<open>
    if (count > size_) {
        Reserve(count);
        std::uninitialized_value_construct_n(data_.GetAddress() + size_, count - size_);
    } else {
        std::destroy_n(data_.GetAddress() + count, size_ - count);
    }
    size_ = count;
  \<close>
\<close>

definition Resize :: "'a traits \<Rightarrow> 'a state \<Rightarrow> nat \<Rightarrow> nat \<Rightarrow> (unit, 'a state) outcome" where
  "Resize T s this count =
     (case vecs s this of
        None \<Rightarrow> Undefined
      | Some V \<Rightarrow>
          then_do
            (if count > m_size V then
               then_do (Reserve T s this count)
                 (\<lambda>_ s1. case vecs s1 this of
                    None \<Rightarrow> Undefined
                  | Some V1 \<Rightarrow>
                      uninitialized_value_construct_n T s1
                        (ptr_add (GetAddress (m_data V1)) (m_size V1)) (count - m_size V1))
             else destroy_n s (ptr_add (GetAddress (m_data V)) count) (m_size V - count))
            (\<lambda>_ s2. case vecs s2 this of
               None \<Rightarrow> Undefined
             | Some V2 \<Rightarrow> Ok () (set_vec s2 this (V2\<lparr>m_size := count\<rparr>))))"

text \<open>
  \<^verbatim>\<open>Emplace(const_iterator pos, Args&&... args)\<close>.
  \<^verbatim>\<open>
    assert(pos >= begin() && pos <= end());
    iterator it_element = nullptr;
    size_t shift = pos - begin();
    if (size_ == Capacity()) {
        RawMemory<T> data(size_ == 0 ? 1 : size_ * 2);
        it_element = new (data + shift) T(std::forward<Args>(args)...);
        if constexpr (std::is_nothrow_move_constructible_v<T> || !std::is_copy_constructible_v<T>) {
            std::uninitialized_move_n(begin(), shift, data.GetAddress());
            std::uninitialized_move_n(begin() + shift, size_ - shift, data.GetAddress() + shift + 1);
        } else {
            try {
                std::uninitialized_copy_n(begin(), shift, data.GetAddress());
                std::uninitialized_copy_n(begin() + shift, size_ - shift, data.GetAddress() + shift + 1);
            } catch (...) { std::destroy_n(data.GetAddress() + shift, 1); throw; }
        }
        std::destroy_n(begin(), size_);
        data_.Swap(data);
    } else {
        if (size_ != 0) {
            new (data_ + size_) T(std::move(*(end() - 1)));
            try { std::move_backward(begin() + shift, end(), end() + 1); }
            catch (...) { std::destroy_n(end(), 1); throw; }
            std::destroy_at(begin() + shift);
        }
        it_element = new (data_ + shift) T(std::forward<Args>(args)...);
    }
    ++size_;
    return it_element;
  \<close>
  The two branches are the two functions below. Pointers are compared inside one
  block only, so the assertion holds when \<open>pos\<close> points into the vector's block at an
  offset up to \<open>size_\<close>.
\<close>

definition Emplace_realloc ::
  "'a traits \<Rightarrow> 'a state \<Rightarrow> nat \<Rightarrow> Vector \<Rightarrow> nat \<Rightarrow> ('a, 'a ref) ctor_args \<Rightarrow>
     (ptr, 'a state) outcome" where
  "Emplace_realloc T s this V shift args =
     then_do (RawMemory_ctor T s (if m_size V = 0 then 1 else m_size V * 2))
       (\<lambda>d s1.
          then_do
            (on_throw
               (case RawMemory_plus d shift of
                  None \<Rightarrow> Undefined
                | Some p \<Rightarrow>
                    then_do (construct_from T s1 p args)
                      (\<lambda>_ s2.
                         then_do
                           (if is_nothrow_move_constructible T \<or> \<not> is_copy_constructible T then
                              then_do (uninitialized_move_n T s2 (begin_of V) shift (GetAddress d))
                                (\<lambda>_ s3. uninitialized_move_n T s3 (ptr_add (begin_of V) shift)
                                           (m_size V - shift)
                                           (ptr_add (GetAddress d) (shift + 1)))
                            else
                              on_throw
                                (then_do (uninitialized_copy_n T s2 (begin_of V) shift (GetAddress d))
                                   (\<lambda>_ s3. uninitialized_copy_n T s3 (ptr_add (begin_of V) shift)
                                              (m_size V - shift)
                                              (ptr_add (GetAddress d) (shift + 1))))
                                (\<lambda>s3. destroy_n s3 (ptr_add (GetAddress d) shift) 1))
                           (\<lambda>_ s4. then_do (destroy_n s4 (begin_of V) (m_size V))
                                      (\<lambda>_ s5. Ok p s5))))
               (unwind_raw d))
            (\<lambda>p s5.
               let sw = RawMemory_Swap (m_data V) d;
                   s6 = set_vec s5 this (V\<lparr>m_data := fst sw\<rparr>)
               in Ok p (RawMemory_dtor s6 (snd sw))))"

definition Emplace_inplace ::
  "'a traits \<Rightarrow> 'a state \<Rightarrow> Vector \<Rightarrow> nat \<Rightarrow> ('a, 'a ref) ctor_args \<Rightarrow> (ptr, 'a state) outcome" where
  "Emplace_inplace T s V shift args =
     then_do
       (if m_size V \<noteq> 0 then
          (case RawMemory_plus (m_data V) (m_size V) of
             None \<Rightarrow> Undefined
           | Some q \<Rightarrow>
               then_do (move_construct T s (fst (end_of V), snd (end_of V) - 1) q)
                 (\<lambda>_ s1.
                    then_do
                      (on_throw
                         (std_move_backward T s1 (ptr_add (begin_of V) shift) (m_size V - shift)
                            (ptr_add (end_of V) 1))
                         (\<lambda>s2. destroy_n s2 (end_of V) 1))
                      (\<lambda>_ s2. destroy_at s2 (ptr_add (begin_of V) shift))))
        else Ok () s)
       (\<lambda>_ s3.
          case RawMemory_plus (m_data V) shift of
            None \<Rightarrow> Undefined
          | Some p \<Rightarrow> then_do (construct_from T s3 p args) (\<lambda>_ s4. Ok p s4))"

definition Emplace ::
  "'a traits \<Rightarrow> 'a state \<Rightarrow> nat \<Rightarrow> ptr \<Rightarrow> ('a, 'a ref) ctor_args \<Rightarrow> (ptr, 'a state) outcome" where
  "Emplace T s this pos args =
     (case vecs s this of
        None \<Rightarrow> Undefined
      | Some V \<Rightarrow>
          if \<not> (fst pos = m_buffer (m_data V) \<and> snd pos \<le> m_size V) then Undefined
          else
            then_do
              (if m_size V = Capacity V
               then Emplace_realloc T s this V (snd pos) args
               else Emplace_inplace T s V (snd pos) args)
              (\<lambda>p s1. case vecs s1 this of
                 None \<Rightarrow> Undefined
               | Some V1 \<Rightarrow> Ok p (set_vec s1 this (V1\<lparr>m_size := m_size V1 + 1\<rparr>))))"

text \<open>
  \<^verbatim>\<open>Erase(const_iterator pos)\<close>.
  \<^verbatim>\<open>
    assert(pos >= begin() && pos < end());
    size_t shift = pos - begin();
    std::move(begin() + shift + 1, end(), begin() + shift);
    PopBack();
    return begin() + shift;
  \<close>
\<close>

definition Erase :: "'a traits \<Rightarrow> 'a state \<Rightarrow> nat \<Rightarrow> ptr \<Rightarrow> (ptr, 'a state) outcome" where
  "Erase T s this pos =
     (case vecs s this of
        None \<Rightarrow> Undefined
      | Some V \<Rightarrow>
          if \<not> (fst pos = m_buffer (m_data V) \<and> snd pos < m_size V) then Undefined
          else
            then_do (std_move T s (ptr_add (begin_of V) (snd pos + 1)) (m_size V - (snd pos + 1))
                       (ptr_add (begin_of V) (snd pos)))
              (\<lambda>_ s1. then_do (PopBack s1 this)
                 (\<lambda>_ s2. case vecs s2 this of
                    None \<Rightarrow> Undefined
                  | Some V2 \<Rightarrow> Ok (ptr_add (begin_of V2) (snd pos)) s2)))"

text \<open>\<^verbatim>\<open>Insert(pos, const T& value)\<close> and \<^verbatim>\<open>Insert(pos, T&& value)\<close>.\<close>

definition Insert_copy ::
  "'a traits \<Rightarrow> 'a state \<Rightarrow> nat \<Rightarrow> ptr \<Rightarrow> 'a ref \<Rightarrow> (ptr, 'a state) outcome" where
  "Insert_copy T s this pos v = Emplace T s this pos (CopyOf v)"

definition Insert_move ::
  "'a traits \<Rightarrow> 'a state \<Rightarrow> nat \<Rightarrow> ptr \<Rightarrow> 'a ref \<Rightarrow> (ptr, 'a state) outcome" where
  "Insert_move T s this pos v = Emplace T s this pos (MoveOf v)"

text \<open>\<^verbatim>\<open>EmplaceBack(args...)\<close>: \<^verbatim>\<open>return *Emplace(end(), std::forward<Args>(args)...);\<close>.\<close>

definition EmplaceBack ::
  "'a traits \<Rightarrow> 'a state \<Rightarrow> nat \<Rightarrow> ('a, 'a ref) ctor_args \<Rightarrow> (ptr, 'a state) outcome" where
  "EmplaceBack T s this args =
     (case vecs s this of
        None \<Rightarrow> Undefined
      | Some V \<Rightarrow> Emplace T s this (end_of V) args)"

text \<open>
  \<^verbatim>\<open>PushBack(Type&& value)\<close>: \<^verbatim>\<open>EmplaceBack(std::forward<Type>(value));\<close>, a copy for an
  lvalue and a move for an rvalue.
\<close>

definition PushBack ::
  "'a traits \<Rightarrow> 'a state \<Rightarrow> nat \<Rightarrow> ('a, 'a ref) ctor_args \<Rightarrow> (unit, 'a state) outcome" where
  "PushBack T s this v = then_do (EmplaceBack T s this v) (\<lambda>_ s1. Ok () s1)"

text \<open>
  \<^verbatim>\<open>operator[](size_t index)\<close>: \<^verbatim>\<open>assert(index < size_); return data_[index];\<close>, where
  \<^verbatim>\<open>RawMemory::operator[]\<close> is \<^verbatim>\<open>assert(index < capacity_); return buffer_[index];\<close>.
  \<open>subscript_ref\<close> is the reference it returns (\<open>None\<close> when an assertion fails),
  \<open>subscript\<close> a read through it and \<open>subscript_assign\<close> an assignment \<^verbatim>\<open>v[index] = x\<close>
  through it.
\<close>

definition subscript_ref :: "'a state \<Rightarrow> nat \<Rightarrow> nat \<Rightarrow> ptr option" where
  "subscript_ref s this index =
     (case vecs s this of
        None \<Rightarrow> None
      | Some V \<Rightarrow>
          if \<not> (index < m_size V \<and> index < m_capacity (m_data V)) then None
          else Some (m_buffer (m_data V), index))"

definition subscript :: "'a state \<Rightarrow> nat \<Rightarrow> nat \<Rightarrow> ('a, 'a state) outcome" where
  "subscript s this index =
     (case vecs s this of
        None \<Rightarrow> Undefined
      | Some V \<Rightarrow>
          if \<not> (index < m_size V \<and> index < m_capacity (m_data V)) then Undefined
          else (case read_at s (m_buffer (m_data V), index) of
                  None \<Rightarrow> Undefined
                | Some x \<Rightarrow> Ok x s))"

definition subscript_assign ::
  "'a traits \<Rightarrow> 'a state \<Rightarrow> nat \<Rightarrow> nat \<Rightarrow> 'a \<Rightarrow> (unit, 'a state) outcome" where
  "subscript_assign T s this index x =
     (case vecs s this of
        None \<Rightarrow> Undefined
      | Some V \<Rightarrow>
          if \<not> (index < m_size V \<and> index < m_capacity (m_data V)) then Undefined
          else if read_at s (m_buffer (m_data V), index) = None then Undefined
          else if copy_assign_throws T x then Throw ElemThrow s
          else Ok () (put_slot s (m_buffer (m_data V), index) (Some x)))"

section \<open>The sequence a vector holds\<close>

text \<open>The slots \<open>[0, size_)\<close> of a vector's storage, and the values of the objects in them.\<close>

definition slots_of :: "'a state \<Rightarrow> Vector \<Rightarrow> 'a option list" where
  "slots_of s V =
     (case blocks s (m_buffer (m_data V)) of
        None \<Rightarrow> []
      | Some b \<Rightarrow> take (m_size V) b)"

definition elems :: "'a state \<Rightarrow> nat \<Rightarrow> 'a list" where
  "elems s v = (case vecs s v of None \<Rightarrow> [] | Some V \<Rightarrow> map the (slots_of s V))"

section \<open>Notions used to state the properties\<close>

text \<open>The state a call leaves behind, whether it returns or throws.\<close>

definition after :: "('r, 's) outcome \<Rightarrow> 's option" where
  "after m = (case m of Ok r s \<Rightarrow> Some s | Throw e s \<Rightarrow> Some s | Undefined \<Rightarrow> None)"

text \<open>
  Two vectors of numbers: vector 2 holds \<open>[7]\<close> with capacity 2, vector 3 holds \<open>[5, 6]\<close>
  with capacity 2.
\<close>

definition two_vectors :: "nat state" where
  "two_vectors =
     \<lparr>blocks = (\<lambda>_. None)(10 := Some [Some 7, None], 20 := Some [Some 5, Some 6]),
      next_addr = 21, avail = 100,
      vecs = (\<lambda>_. None)(2 := Some \<lparr>m_data = \<lparr>m_buffer = 10, m_capacity = 2\<rparr>, m_size = 1\<rparr>,
                          3 := Some \<lparr>m_data = \<lparr>m_buffer = 20, m_capacity = 2\<rparr>, m_size = 2\<rparr>)\<rparr>"

text \<open>
  Element types used in the examples. Numbers are trivially copyable, of 4 bytes
  (\<^verbatim>\<open>int\<close>): nothing throws and a move leaves the source as it was. A string, of 32
  bytes, is left empty by a move.
\<close>

definition number_traits :: "nat traits" where
  "number_traits =
     \<lparr>is_nothrow_move_constructible = True, is_copy_constructible = True,
      copy_ctor_throws = (\<lambda>_. False), move_ctor_throws = (\<lambda>_. False),
      copy_assign_throws = (\<lambda>_. False), move_assign_throws = (\<lambda>_. False),
      moved_from = (\<lambda>x. x), value_init = Some 0, sizeof = 4\<rparr>"

definition string_traits :: "string traits" where
  "string_traits =
     \<lparr>is_nothrow_move_constructible = True, is_copy_constructible = True,
      copy_ctor_throws = (\<lambda>_. False), move_ctor_throws = (\<lambda>_. False),
      copy_assign_throws = (\<lambda>_. False), move_assign_throws = (\<lambda>_. False),
      moved_from = (\<lambda>_. []), value_init = Some [], sizeof = 32\<rparr>"

text \<open>
  \<open>leaves P m\<close>: whatever state the call \<open>m\<close> leaves behind, returning or throwing,
  satisfies \<open>P\<close>. \<open>modifies A s s'\<close>: from \<open>s\<close> to \<open>s'\<close> only the contents of slots in the
  blocks at the addresses \<open>A\<close> have changed.
\<close>

definition leaves :: "('s \<Rightarrow> bool) \<Rightarrow> ('r, 's) outcome \<Rightarrow> bool" where
  "leaves P m = (case m of Ok r s \<Rightarrow> P s | Throw e s \<Rightarrow> P s | Undefined \<Rightarrow> True)"

definition modifies :: "addr set \<Rightarrow> 'a state \<Rightarrow> 'a state \<Rightarrow> bool" where
  "modifies A s s' \<longleftrightarrow>
     vecs s' = vecs s \<and> next_addr s' = next_addr s \<and> avail s' = avail s \<and>
     (\<forall>a. map_option length (blocks s' a) = map_option length (blocks s a)) \<and>
     (\<forall>a. a \<notin> A \<longrightarrow> blocks s' a = blocks s a)"

text \<open>
  \<open>post P Q m\<close>: when the call \<open>m\<close> returns \<open>r\<close> in state \<open>s\<close> then \<open>P r s\<close>, and when it
  throws in state \<open>s\<close> then \<open>Q s\<close>.
\<close>

definition post :: "('r \<Rightarrow> 's \<Rightarrow> bool) \<Rightarrow> ('s \<Rightarrow> bool) \<Rightarrow> ('r, 's) outcome \<Rightarrow> bool" where
  "post P Q m = (case m of Ok r s \<Rightarrow> P r s | Throw e s \<Rightarrow> Q s | Undefined \<Rightarrow> True)"

text \<open>The size of every vector is at most its capacity.\<close>

definition sized_ok :: "'a state \<Rightarrow> bool" where
  "sized_ok s \<longleftrightarrow> (\<forall>w V. vecs s w = Some V \<longrightarrow> m_size V \<le> Capacity V)"

text \<open>Every vector of \<open>s0\<close> is still there in \<open>s\<close>, with at least the capacity it had.\<close>

definition grows :: "'a state \<Rightarrow> 'a state \<Rightarrow> bool" where
  "grows s0 s \<longleftrightarrow>
     (\<forall>w V0. vecs s0 w = Some V0 \<longrightarrow> (\<exists>V. vecs s w = Some V \<and> Capacity V0 \<le> Capacity V))"

text \<open>
  What a member function called on the vectors named in \<open>N\<close>, whose blocks are at the
  addresses \<open>B\<close>, may have done on the way from \<open>s0\<close> to \<open>s\<close>: blocks that existed in \<open>s0\<close>
  and are not in \<open>B\<close> are as they were, new blocks are at new addresses, vectors not in
  \<open>N\<close> are as they were, and sizes are within capacities. With the flag \<open>g\<close> set, no
  capacity has decreased.
\<close>

definition frame_rel :: "bool \<Rightarrow> addr set \<Rightarrow> nat set \<Rightarrow> 'a state \<Rightarrow> 'a state \<Rightarrow> bool" where
  "frame_rel g B N s0 s \<longleftrightarrow>
     next_addr s0 \<le> next_addr s \<and>
     (\<forall>a. a \<notin> B \<and> a \<noteq> 0 \<and> a < next_addr s0 \<longrightarrow> blocks s a = blocks s0 a) \<and>
     (\<forall>a. blocks s0 a = None \<and> (a < next_addr s0 \<or> next_addr s \<le> a) \<longrightarrow> blocks s a = None) \<and>
     (\<forall>w. w \<notin> N \<longrightarrow> vecs s w = vecs s0 w) \<and>
     sized_ok s \<and>
     (g \<longrightarrow> grows s0 s)"

text \<open>An address a call on the blocks \<open>B\<close> of state \<open>s0\<close> may write to or release.\<close>

definition touchable :: "addr set \<Rightarrow> 'a state \<Rightarrow> addr \<Rightarrow> bool" where
  "touchable B s0 a \<longleftrightarrow> a \<in> B \<or> a = 0 \<or> next_addr s0 \<le> a"

text \<open>
  An argument expression of a call, where the function takes a reference: an object of
  the caller outside the storage of the vectors, by its value, or \<^verbatim>\<open>w[i]\<close>, the element
  \<open>i\<close> of the vector \<open>w\<close>. The caller evaluates it to the reference it passes.
\<close>

datatype 'a operand = Val 'a | Elem nat nat

definition bind_operand :: "'a state \<Rightarrow> 'a operand \<Rightarrow> 'a ref option" where
  "bind_operand s a =
     (case a of Val x \<Rightarrow> Some (Obj x) | Elem w i \<Rightarrow> map_option At (subscript_ref s w i))"

definition bind_args ::
  "'a state \<Rightarrow> ('a, 'a operand) ctor_args \<Rightarrow> ('a, 'a ref) ctor_args option" where
  "bind_args s a =
     (case a of
        CopyOf r \<Rightarrow> map_option CopyOf (bind_operand s r)
      | MoveOf r \<Rightarrow> map_option MoveOf (bind_operand s r)
      | Args v \<Rightarrow> Some (Args v))"

text \<open>
  The public operations of \<^verbatim>\<open>Vector\<close> that can change the state, as they are called on
  named vector objects, and a program as a sequence of such calls. An exception thrown
  by a call is caught by the program, which goes on from the state the call left.
  A call with undefined behaviour ends the program.
\<close>

datatype 'a op =
    OpDefault nat
  | OpSized nat nat
  | OpCopy nat nat
  | OpCopyAssign nat nat
  | OpMove nat nat
  | OpMoveAssign nat nat
  | OpDtor nat
  | OpEmplace nat ptr "('a, 'a operand) ctor_args"
  | OpErase nat ptr
  | OpInsertCopy nat ptr "'a operand"
  | OpInsertMove nat ptr "'a operand"
  | OpReserve nat nat
  | OpSwap nat nat
  | OpResize nat nat
  | OpPushBack nat "('a, 'a operand) ctor_args"
  | OpPopBack nat
  | OpEmplaceBack nat "('a, 'a operand) ctor_args"
  | OpAssignAt nat nat 'a

definition discard :: "('r, 's) outcome \<Rightarrow> (unit, 's) outcome" where
  "discard m = then_do m (\<lambda>_ s. Ok () s)"

fun run_op :: "'a traits \<Rightarrow> 'a state \<Rightarrow> 'a op \<Rightarrow> (unit, 'a state) outcome" where
  "run_op T s (OpDefault v) = Vector_default s v"
| "run_op T s (OpSized v n) = Vector_sized T s v n"
| "run_op T s (OpCopy v w) = Vector_copy T s v w"
| "run_op T s (OpCopyAssign v w) = Vector_copy_assign T s v w"
| "run_op T s (OpMove v w) = Vector_move s v w"
| "run_op T s (OpMoveAssign v w) = Vector_move_assign s v w"
| "run_op T s (OpDtor v) = Vector_dtor s v"
| "run_op T s (OpEmplace v pos a) =
     (case bind_args s a of
        None \<Rightarrow> Undefined
      | Some args \<Rightarrow> discard (Emplace T s v pos args))"
| "run_op T s (OpErase v pos) = discard (Erase T s v pos)"
| "run_op T s (OpInsertCopy v pos a) =
     (case bind_operand s a of
        None \<Rightarrow> Undefined
      | Some r \<Rightarrow> discard (Insert_copy T s v pos r))"
| "run_op T s (OpInsertMove v pos a) =
     (case bind_operand s a of
        None \<Rightarrow> Undefined
      | Some r \<Rightarrow> discard (Insert_move T s v pos r))"
| "run_op T s (OpReserve v n) = Reserve T s v n"
| "run_op T s (OpSwap v w) = Swap s v w"
| "run_op T s (OpResize v n) = Resize T s v n"
| "run_op T s (OpPushBack v a) =
     (case bind_args s a of
        None \<Rightarrow> Undefined
      | Some args \<Rightarrow> PushBack T s v args)"
| "run_op T s (OpPopBack v) = PopBack s v"
| "run_op T s (OpEmplaceBack v a) =
     (case bind_args s a of
        None \<Rightarrow> Undefined
      | Some args \<Rightarrow> discard (EmplaceBack T s v args))"
| "run_op T s (OpAssignAt v i x) = subscript_assign T s v i x"

fun run_ops :: "'a traits \<Rightarrow> 'a state \<Rightarrow> 'a op list \<Rightarrow> 'a state option" where
  "run_ops T s [] = Some s"
| "run_ops T s (c # cs) =
     (case after (run_op T s c) of None \<Rightarrow> None | Some s' \<Rightarrow> run_ops T s' cs)"

text \<open>The vectors a call names, and the calls that are a move, a swap or a destruction.\<close>

fun operand_names :: "'a operand \<Rightarrow> nat set" where
  "operand_names (Val x) = {}"
| "operand_names (Elem w i) = {w}"

fun args_names :: "('a, 'a operand) ctor_args \<Rightarrow> nat set" where
  "args_names (CopyOf r) = operand_names r"
| "args_names (MoveOf r) = operand_names r"
| "args_names (Args v) = {}"

fun names :: "'a op \<Rightarrow> nat set" where
  "names (OpDefault v) = {v}"
| "names (OpSized v n) = {v}"
| "names (OpCopy v w) = {v, w}"
| "names (OpCopyAssign v w) = {v, w}"
| "names (OpMove v w) = {v, w}"
| "names (OpMoveAssign v w) = {v, w}"
| "names (OpDtor v) = {v}"
| "names (OpEmplace v pos a) = insert v (args_names a)"
| "names (OpErase v pos) = {v}"
| "names (OpInsertCopy v pos a) = insert v (operand_names a)"
| "names (OpInsertMove v pos a) = insert v (operand_names a)"
| "names (OpReserve v n) = {v}"
| "names (OpSwap v w) = {v, w}"
| "names (OpResize v n) = {v}"
| "names (OpPushBack v a) = insert v (args_names a)"
| "names (OpPopBack v) = {v}"
| "names (OpEmplaceBack v a) = insert v (args_names a)"
| "names (OpAssignAt v i x) = {v}"

fun move_swap_or_dtor :: "'a op \<Rightarrow> bool" where
  "move_swap_or_dtor (OpMove v w) = True"
| "move_swap_or_dtor (OpMoveAssign v w) = True"
| "move_swap_or_dtor (OpSwap v w) = True"
| "move_swap_or_dtor (OpDtor v) = True"
| "move_swap_or_dtor c = False"

text \<open>The addresses of the blocks of the vectors named in \<open>N\<close>.\<close>

definition bufs :: "'a state \<Rightarrow> nat set \<Rightarrow> addr set" where
  "bufs s N = {a. \<exists>w\<in>N. \<exists>V. vecs s w = Some V \<and> m_buffer (m_data V) = a}"

text \<open>The state of a program that has not created a vector yet.\<close>

definition initial :: "nat \<Rightarrow> 'a state" where
  "initial n = \<lparr>blocks = (\<lambda>_. None), next_addr = 1, avail = n, vecs = (\<lambda>_. None)\<rparr>"

text \<open>
  A small program on numbers: three appends to an empty vector, then an insertion in the
  middle.
\<close>

definition small_program :: "nat op list" where
  "small_program =
     [OpDefault 2, OpPushBack 2 (CopyOf (Val 5)), OpPushBack 2 (CopyOf (Val 6)),
      OpPushBack 2 (CopyOf (Val 7)), OpInsertCopy 2 (3, 1) (Val 9)]"


text \<open>
  The allocator is in order: the null address and the addresses not handed out yet hold
  no block. \<open>unchanged s s'\<close>: the two states have the same vectors, the same blocks
  with the same contents and the same free memory; they can differ only in the address
  the allocator will hand out next.
\<close>

definition heap_ok :: "'a state \<Rightarrow> bool" where
  "heap_ok s \<longleftrightarrow> 0 < next_addr s \<and> (\<forall>a. next_addr s \<le> a \<longrightarrow> blocks s a = None) \<and> blocks s 0 = None"

definition unchanged :: "'a state \<Rightarrow> 'a state \<Rightarrow> bool" where
  "unchanged s s' \<longleftrightarrow> vecs s' = vecs s \<and> blocks s' = blocks s \<and> avail s' = avail s"

text \<open>A call that cannot throw; what a call threw, and what it returned.\<close>

definition nothrow :: "('r, 's) outcome \<Rightarrow> bool" where
  "nothrow m \<longleftrightarrow> (\<forall>e s. m \<noteq> Throw e s)"

definition thrown :: "('r, 's) outcome \<Rightarrow> (exn \<times> 's) option" where
  "thrown m = (case m of Throw e s \<Rightarrow> Some (e, s) | _ \<Rightarrow> None)"

definition returned :: "('r, 's) outcome \<Rightarrow> ('r \<times> 's) option" where
  "returned m = (case m of Ok r s \<Rightarrow> Some (r, s) | _ \<Rightarrow> None)"

text \<open>
  Three more element types over the numbers, of 4 bytes. The first can be copied, its
  move constructor may throw, and copying the value 6 throws. The second cannot be
  copied, moving the value 6 throws, and a moved-from object holds 0. The third is the
  first with a move constructor that is not \<^verbatim>\<open>noexcept\<close> but does not throw.
\<close>

definition throwing_copy_traits :: "nat traits" where
  "throwing_copy_traits =
     \<lparr>is_nothrow_move_constructible = False, is_copy_constructible = True,
      copy_ctor_throws = (\<lambda>x. x = 6), move_ctor_throws = (\<lambda>_. True),
      copy_assign_throws = (\<lambda>_. False), move_assign_throws = (\<lambda>_. False),
      moved_from = (\<lambda>_. 0), value_init = Some 0, sizeof = 4\<rparr>"

definition copy_relocated_traits :: "nat traits" where
  "copy_relocated_traits =
     \<lparr>is_nothrow_move_constructible = False, is_copy_constructible = True,
      copy_ctor_throws = (\<lambda>x. x = 6), move_ctor_throws = (\<lambda>_. False),
      copy_assign_throws = (\<lambda>_. False), move_assign_throws = (\<lambda>_. False),
      moved_from = (\<lambda>_. 0), value_init = Some 0, sizeof = 4\<rparr>"

definition move_only_traits :: "nat traits" where
  "move_only_traits =
     \<lparr>is_nothrow_move_constructible = False, is_copy_constructible = False,
      copy_ctor_throws = (\<lambda>_. False), move_ctor_throws = (\<lambda>x. x = 6),
      copy_assign_throws = (\<lambda>_. False), move_assign_throws = (\<lambda>_. False),
      moved_from = (\<lambda>_. 0), value_init = Some 0, sizeof = 4\<rparr>"

text \<open>The state \<open>s\<close> with the contents \<open>B\<close> in the block at \<open>a\<close>.\<close>

definition with_block :: "'a state \<Rightarrow> addr \<Rightarrow> 'a option list \<Rightarrow> 'a state" where
  "with_block s a B = s\<lparr>blocks := (blocks s)(a := Some B)\<rparr>"

text \<open>
  A vector in order: its size is within its capacity, its storage is the null address
  with capacity 0 or a block of as many slots as its capacity, and exactly the slots
  \<open>[0, size)\<close> of that block hold live objects.
\<close>

definition vec_ok :: "'a state \<Rightarrow> Vector \<Rightarrow> bool" where
  "vec_ok s V \<longleftrightarrow>
     m_size V \<le> Capacity V \<and>
     (if m_buffer (m_data V) = 0 then Capacity V = 0
      else (\<exists>b. blocks s (m_buffer (m_data V)) = Some b \<and> length b = Capacity V \<and>
                (\<forall>i<length b. (b ! i \<noteq> None) = (i < m_size V))))"


definition relocate :: "'a traits \<Rightarrow> 'a state \<Rightarrow> ptr \<Rightarrow> nat \<Rightarrow> ptr \<Rightarrow> (unit, 'a state) outcome" where
  "relocate T s src n dst =
     (if is_nothrow_move_constructible T \<or> \<not> is_copy_constructible T
      then uninitialized_move_n T s src n dst
      else uninitialized_copy_n T s src n dst)"

text \<open>
  \<open>shifted_left B i n B'\<close>: the block \<open>B'\<close> is \<open>B\<close> with the \<open>n\<close> slots after index \<open>i\<close> moved
  one slot to the front; the slot they left at the end still holds an object.
\<close>

definition shifted_left :: "'a option list \<Rightarrow> nat \<Rightarrow> nat \<Rightarrow> 'a option list \<Rightarrow> bool" where
  "shifted_left B i n B' \<longleftrightarrow>
     length B' = length B \<and>
     (\<forall>k<i. B' ! k = B ! k) \<and>
     (\<forall>k. i \<le> k \<and> k < i + n \<longrightarrow> B' ! k = B ! Suc k) \<and>
     B' ! (i + n) \<noteq> None \<and>
     (\<forall>k. i + n < k \<and> k < length B \<longrightarrow> B' ! k = B ! k)"

text \<open>
  \<open>fits T n\<close>: the size in bytes of \<open>n\<close> objects of type \<^verbatim>\<open>T\<close> is a value of \<^verbatim>\<open>size_t\<close>.
\<close>

definition fits :: "'a traits \<Rightarrow> nat \<Rightarrow> bool" where
  "fits T n \<longleftrightarrow> 0 < sizeof T \<and> n * sizeof T < 2 ^ 64"

text \<open>
  A state in order, for the element type \<^verbatim>\<open>T\<close>: the allocator is in order, every vector
  is in order and its storage has a size in bytes that is a value of \<^verbatim>\<open>size_t\<close>, and no
  two vectors share a block.
\<close>

definition wf :: "'a traits \<Rightarrow> 'a state \<Rightarrow> bool" where
  "wf T s \<longleftrightarrow>
     heap_ok s \<and>
     (\<forall>v V. vecs s v = Some V \<longrightarrow> vec_ok s V \<and> fits T (Capacity V)) \<and>
     (\<forall>v w V W. vecs s v = Some V \<and> vecs s w = Some W \<and> v \<noteq> w \<and> m_buffer (m_data V) \<noteq> 0 \<longrightarrow>
        m_buffer (m_data V) \<noteq> m_buffer (m_data W))"

text \<open>
  A vector of strings: vector 2 holds the strings \<open>a\<close>, \<open>b\<close>, \<open>c\<close> with capacity 4, so an
  insertion into it does not reallocate.
\<close>

definition three_strings :: "string state" where
  "three_strings =
     \<lparr>blocks = (\<lambda>_. None)(10 := Some [Some ''a'', Some ''b'', Some ''c'', None]),
      next_addr = 11, avail = 100,
      vecs = (\<lambda>_. None)(2 := Some \<lparr>m_data = \<lparr>m_buffer = 10, m_capacity = 4\<rparr>, m_size = 3\<rparr>)\<rparr>"

section \<open>Basic facts\<close>

lemma then_do_simps [simp]:
  "then_do (Ok r s) f = f r s"
  "then_do (Throw e s) f = Throw e s"
  "then_do Undefined f = Undefined"
  by (simp_all add: then_do_def)

lemma on_throw_simps [simp]:
  "on_throw (Ok r s) c = Ok r s"
  "on_throw (Throw e s) c = then_do (c s) (\<lambda>_ s'. Throw e s')"
  "on_throw Undefined c = Undefined"
  by (simp_all add: on_throw_def)

lemma fst_ptr_add [simp]: "fst (ptr_add p k) = fst p"
  by (simp add: ptr_add_def)

lemma snd_ptr_add [simp]: "snd (ptr_add p k) = snd p + k"
  by (simp add: ptr_add_def)

lemma RawMemory_Swap_eq [simp]: "RawMemory_Swap x y = (y, x)"
  by (cases x, cases y) (simp add: RawMemory_Swap_def)

lemma Vector_eta [simp]: "\<lparr>m_data = m_data V, m_size = m_size V\<rparr> = V"
  by (cases V) simp

lemma slots_of_vecs_upd [simp]: "slots_of (s\<lparr>vecs := f\<rparr>) V = slots_of s V"
  by (simp add: slots_of_def)

lemma elems_vecs_upd:
  "elems (s\<lparr>vecs := f\<rparr>) v = (case f v of None \<Rightarrow> [] | Some V \<Rightarrow> map the (slots_of s V))"
  by (simp add: elems_def split: option.splits)

lemma two_vectors_simps:
  "vecs two_vectors 2 = Some \<lparr>m_data = \<lparr>m_buffer = 10, m_capacity = 2\<rparr>, m_size = 1\<rparr>"
  "vecs two_vectors 3 = Some \<lparr>m_data = \<lparr>m_buffer = 20, m_capacity = 2\<rparr>, m_size = 2\<rparr>"
  "vecs two_vectors 4 = None"
  "elems two_vectors 2 = [7]"
  "elems two_vectors 3 = [5, 6]"
  by (simp_all add: two_vectors_def elems_def slots_of_def)

lemma set_vec_simps [simp]:
  "blocks (set_vec s v V) = blocks s"
  "next_addr (set_vec s v V) = next_addr s"
  "avail (set_vec s v V) = avail s"
  by (simp_all add: set_vec_def)

section \<open>What the algorithms touch\<close>

lemma leaves_simps [simp]:
  "leaves P (Ok r s) = P s"
  "leaves P (Throw e s) = P s"
  "leaves P Undefined = True"
  by (simp_all add: leaves_def)

lemma leaves_mono: "leaves P m \<Longrightarrow> (\<And>s. P s \<Longrightarrow> Q s) \<Longrightarrow> leaves Q m"
  by (cases m) auto

lemma modifies_refl [simp]: "modifies A s s"
  by (simp add: modifies_def)

lemma modifies_trans: "modifies A s s1 \<Longrightarrow> modifies A s1 s2 \<Longrightarrow> modifies A s s2"
  by (simp add: modifies_def)

lemma modifies_mono: "modifies A s s' \<Longrightarrow> A \<subseteq> B \<Longrightarrow> modifies B s s'"
  by (auto simp add: modifies_def)

lemma modifies_put_slot: "fst p \<in> A \<Longrightarrow> modifies A s (put_slot s p v)"
  by (cases "blocks s (fst p)") (auto simp add: modifies_def put_slot_def)

lemma modifies_then_do:
  assumes "leaves (modifies A s) m" and "\<And>r s1. leaves (modifies A s1) (f r s1)"
  shows "leaves (modifies A s) (then_do m f)"
proof (cases m)
  case (Ok r s1)
  with assms(1) have "modifies A s s1" by simp
  with assms(2)[of s1 r] show ?thesis
    using Ok by (cases "f r s1") (auto intro: modifies_trans)
qed (use assms(1) in auto)

lemma modifies_on_throw:
  assumes "leaves (modifies A s) m" and "\<And>s1. leaves (modifies A s1) (c s1)"
  shows "leaves (modifies A s) (on_throw m c)"
proof (cases m)
  case (Throw e s1)
  with assms(1) have "modifies A s s1" by simp
  with assms(2)[of s1] show ?thesis
    using Throw by (cases "c s1") (auto intro: modifies_trans)
qed (use assms(1) in auto)

lemma construct_at_modifies: "fst p \<in> A \<Longrightarrow> leaves (modifies A s) (construct_at s p x)"
  by (simp add: construct_at_def modifies_put_slot)

lemma destroy_at_modifies: "fst p \<in> A \<Longrightarrow> leaves (modifies A s) (destroy_at s p)"
  by (simp add: destroy_at_def modifies_put_slot)

lemma copy_construct_modifies: "fst dst \<in> A \<Longrightarrow> leaves (modifies A s) (copy_construct T s src dst)"
  by (simp add: copy_construct_def construct_at_modifies split: option.splits)

lemma move_construct_modifies:
  "fst src \<in> A \<Longrightarrow> fst dst \<in> A \<Longrightarrow> leaves (modifies A s) (move_construct T s src dst)"
  by (auto simp add: move_construct_def construct_at_def split: option.splits
      intro!: modifies_trans[OF modifies_put_slot modifies_put_slot])

lemma copy_assign_modifies: "fst dst \<in> A \<Longrightarrow> leaves (modifies A s) (copy_assign T s src dst)"
  by (simp add: copy_assign_def modifies_put_slot split: option.splits)

lemma move_assign_modifies:
  "fst src \<in> A \<Longrightarrow> fst dst \<in> A \<Longrightarrow> leaves (modifies A s) (move_assign T s src dst)"
  by (auto simp add: move_assign_def split: option.splits
      intro!: modifies_trans[OF modifies_put_slot modifies_put_slot])

lemma destroy_n_modifies: "fst p \<in> A \<Longrightarrow> leaves (modifies A s) (destroy_n s p n)"
  by (induction n arbitrary: s p) (auto simp add: ptr_add_def intro!: modifies_then_do destroy_at_modifies)

lemma uninitialized_copy_n_modifies:
  "fst dst \<in> A \<Longrightarrow> leaves (modifies A s) (uninitialized_copy_n T s src n dst)"
  by (induction n arbitrary: s src dst)
    (auto simp add: ptr_add_def intro!: modifies_then_do modifies_on_throw copy_construct_modifies destroy_at_modifies)

lemma uninitialized_move_n_modifies:
  "fst src \<in> A \<Longrightarrow> fst dst \<in> A \<Longrightarrow> leaves (modifies A s) (uninitialized_move_n T s src n dst)"
  by (induction n arbitrary: s src dst)
    (auto simp add: ptr_add_def intro!: modifies_then_do modifies_on_throw move_construct_modifies destroy_at_modifies)

lemma uninitialized_value_construct_n_modifies:
  "fst p \<in> A \<Longrightarrow> leaves (modifies A s) (uninitialized_value_construct_n T s p n)"
  by (induction n arbitrary: s p)
    (auto simp add: ptr_add_def intro!: modifies_then_do modifies_on_throw construct_at_modifies destroy_at_modifies
       split: option.splits)

lemma std_copy_modifies:
  "fst d_first \<in> A \<Longrightarrow> leaves (modifies A s) (std_copy T s first n d_first)"
  by (induction n arbitrary: s first d_first)
    (auto simp add: ptr_add_def intro!: modifies_then_do copy_assign_modifies)

lemma std_move_modifies:
  "fst first \<in> A \<Longrightarrow> fst d_first \<in> A \<Longrightarrow> leaves (modifies A s) (std_move T s first n d_first)"
  by (induction n arbitrary: s first d_first)
    (auto simp add: ptr_add_def intro!: modifies_then_do move_assign_modifies)

lemma std_move_backward_modifies:
  "fst first \<in> A \<Longrightarrow> fst d_last \<in> A \<Longrightarrow>
     leaves (modifies A s) (std_move_backward T s first n d_last)"
  by (induction n arbitrary: s d_last)
    (auto simp add: ptr_add_def intro!: modifies_then_do move_assign_modifies)


lemma construct_from_modifies:
  assumes "fst dst \<in> A" and "\<forall>p. args = MoveOf (At p) \<longrightarrow> fst p \<in> A"
  shows "leaves (modifies A s) (construct_from T s dst args)"
proof (cases args)
  case (CopyOf r)
  then show ?thesis
    using assms(1)
    by (simp add: construct_from_def construct_at_modifies split: option.splits)
next
  case (MoveOf r)
  show ?thesis
  proof (cases r)
    case (Obj x)
    then show ?thesis
      using MoveOf assms(1)
      by (auto simp add: construct_from_def deref_def leave_moved_from_def
          intro!: modifies_then_do construct_at_modifies)
  next
    case (At p)
    then have "fst p \<in> A" using MoveOf assms(2) by simp
    then show ?thesis
      using MoveOf At assms(1)
      by (auto simp add: construct_from_def deref_def leave_moved_from_def modifies_put_slot
          intro!: modifies_then_do construct_at_modifies split: option.splits)
  qed
next
  case (Args v)
  then show ?thesis
    using assms(1)
    by (simp add: construct_from_def construct_at_modifies split: option.splits)
qed
section \<open>Frame rules\<close>

lemma post_simps [simp]:
  "post P Q (Ok r s) = P r s"
  "post P Q (Throw e s) = Q s"
  "post P Q Undefined = True"
  by (simp_all add: post_def)

lemma leaves_post: "leaves I m = post (\<lambda>_. I) I m"
  by (cases m) simp_all

lemma post_then_do:
  assumes "post P1 Q m" and "\<And>r s1. P1 r s1 \<Longrightarrow> post P Q (f r s1)"
  shows "post P Q (then_do m f)"
  using assms by (cases m) auto

lemma post_on_throw:
  assumes "post P Q1 m" and "\<And>s1. Q1 s1 \<Longrightarrow> post (\<lambda>_. Q) Q (c s1)"
  shows "post P Q (on_throw m c)"
proof (cases m)
  case (Throw e s1)
  with assms(1) have "Q1 s1" by simp
  from assms(2)[OF this] show ?thesis
    using Throw by (cases "c s1") auto
qed (use assms(1) in auto)

lemma post_weaken:
  assumes "post P' Q' m" and "\<And>r s. P' r s \<Longrightarrow> P r s" and "\<And>s. Q' s \<Longrightarrow> Q s"
  shows "post P Q m"
  using assms by (cases m) auto

lemma frame_rel_refl: "sized_ok s \<Longrightarrow> frame_rel g B N s s"
  by (simp add: frame_rel_def grows_def)

lemma frame_rel_modifies:
  assumes "frame_rel g B N s0 s" and "modifies A s s1" and "\<forall>a\<in>A. touchable B s0 a"
  shows "frame_rel g B N s0 s1"
proof -
  have v: "vecs s1 = vecs s" and n: "next_addr s1 = next_addr s"
    using assms(2) by (simp_all add: modifies_def)
  have same: "\<And>a. \<not> touchable B s0 a \<Longrightarrow> blocks s1 a = blocks s a"
    using assms(2,3) by (auto simp add: modifies_def)
  have none: "\<And>a. blocks s a = None \<Longrightarrow> blocks s1 a = None"
  proof -
    fix a assume "blocks s a = None"
    moreover have "map_option length (blocks s1 a) = map_option length (blocks s a)"
      using assms(2) by (simp add: modifies_def)
    ultimately show "blocks s1 a = None" by simp
  qed
  show ?thesis
    using assms(1) v n none
    by (auto simp add: frame_rel_def sized_ok_def grows_def same touchable_def)
qed

lemma frame_prim:
  assumes "frame_rel g B N s0 s" and "leaves (modifies A s) m" and "\<forall>a\<in>A. touchable B s0 a"
  shows "post (\<lambda>_. frame_rel g B N s0) (frame_rel g B N s0) m"
  using assms by (cases m) (auto intro: frame_rel_modifies)

lemma frame_Deallocate:
  assumes "frame_rel g B N s0 s" and "touchable B s0 a"
  shows "frame_rel g B N s0 (Deallocate s a)"
  using assms
  by (auto simp add: frame_rel_def Deallocate_def sized_ok_def grows_def touchable_def
      split: option.splits)

lemma frame_RawMemory_dtor:
  "frame_rel g B N s0 s \<Longrightarrow> touchable B s0 (m_buffer d) \<Longrightarrow>
     frame_rel g B N s0 (RawMemory_dtor s d)"
  by (simp add: RawMemory_dtor_def frame_Deallocate)

lemma frame_RawMemory_ctor:
  assumes "frame_rel g B N s0 s"
  shows "post (\<lambda>d s1. frame_rel g B N s0 s1 \<and> m_capacity d = n \<and> touchable B s0 (m_buffer d))
           (frame_rel g B N s0) (RawMemory_ctor T s n)"
  using assms
  by (auto simp add: RawMemory_ctor_def Allocate_def operator_new_def frame_rel_def sized_ok_def
      grows_def touchable_def)

lemma frame_set_vec:
  assumes "frame_rel g B N s0 s" and "this \<in> N" and "m_size V \<le> Capacity V"
    and "g \<Longrightarrow> (\<forall>V0. vecs s0 this = Some V0 \<longrightarrow> Capacity V0 \<le> Capacity V)"
  shows "frame_rel g B N s0 (set_vec s this V)"
  using assms
  by (auto simp add: frame_rel_def set_vec_def sized_ok_def grows_def)

section \<open>Room in the destination of a construction\<close>


lemma construct_at_Ok: "construct_at s p x = Ok r s' \<Longrightarrow> in_block s p"
  by (simp add: construct_at_def split: if_splits)

lemma then_do_Ok_D:
  "then_do m f = Ok r s' \<Longrightarrow> \<exists>r1 s1. m = Ok r1 s1 \<and> f r1 s1 = Ok r s'"
  by (cases m) simp_all




lemma construct_from_Ok: "construct_from T s dst args = Ok r s' \<Longrightarrow> in_block s dst"
  by (auto simp add: construct_from_def split: ctor_args.splits if_splits option.splits
      dest!: then_do_Ok_D dest: construct_at_Ok)



text \<open>The products in \<^verbatim>\<open>size_t\<close>.\<close>

lemma size_t_product: "unat (word_of_nat n * word_of_nat k :: 64 word) = (n * k) mod 2 ^ 64"
  by (simp add: unat_of_nat flip: of_nat_mult)

lemma slots_le: "unat (word_of_nat n * word_of_nat k :: 64 word) div k \<le> n"
proof (cases "k = 0")
  case False
  have "(n * k) mod 2 ^ 64 \<le> n * k" by (rule mod_less_eq_dividend)
  then have "(n * k) mod 2 ^ 64 div k \<le> n * k div k" by (rule div_le_mono)
  then show ?thesis using False by (simp add: size_t_product)
qed simp

lemma fits_slots:
  "fits T n \<Longrightarrow> unat (word_of_nat n * word_of_nat (sizeof T) :: 64 word) div sizeof T = n"
  by (simp add: fits_def size_t_product)

text \<open>What the sized constructor of \<^verbatim>\<open>RawMemory\<close> returns.\<close>

lemma RawMemory_ctor_Ok:
  assumes "RawMemory_ctor T s n = Ok d s1" and "n \<noteq> 0"
  shows "\<exists>k. k \<le> n \<and> k \<le> avail s \<and> (fits T n \<longrightarrow> k = n) \<and>
             d = \<lparr>m_buffer = next_addr s, m_capacity = n\<rparr> \<and>
             s1 = s\<lparr>blocks := (blocks s)(next_addr s := Some (replicate k None)),
                    next_addr := Suc (next_addr s), avail := avail s - k\<rparr>"
proof -
  let ?k = "unat (word_of_nat n * word_of_nat (sizeof T) :: 64 word) div sizeof T"
  have "?k \<le> n" by (rule slots_le)
  moreover have "fits T n \<longrightarrow> ?k = n" by (simp add: fits_slots)
  ultimately show ?thesis
    using assms
    by (intro exI[of _ ?k])
      (auto simp add: RawMemory_ctor_def Allocate_def operator_new_def split: if_splits)
qed

lemma RawMemory_ctor_0 [simp]: "RawMemory_ctor T s 0 = Ok \<lparr>m_buffer = 0, m_capacity = 0\<rparr> s"
  by (simp add: RawMemory_ctor_def Allocate_def)
section \<open>What the member functions touch\<close>

lemma frame_destroy_at:
  "frame_rel g B N s0 s \<Longrightarrow> touchable B s0 (fst p) \<Longrightarrow>
     post (\<lambda>_. frame_rel g B N s0) (frame_rel g B N s0) (destroy_at s p)"
  by (rule frame_prim[OF _ destroy_at_modifies[of p "{fst p}"]]) auto

lemma frame_construct_at:
  "frame_rel g B N s0 s \<Longrightarrow> touchable B s0 (fst p) \<Longrightarrow>
     post (\<lambda>_. frame_rel g B N s0) (frame_rel g B N s0) (construct_at s p x)"
  by (rule frame_prim[OF _ construct_at_modifies[of p "{fst p}"]]) auto

lemma frame_destroy_n:
  "frame_rel g B N s0 s \<Longrightarrow> touchable B s0 (fst p) \<Longrightarrow>
     post (\<lambda>_. frame_rel g B N s0) (frame_rel g B N s0) (destroy_n s p n)"
  by (rule frame_prim[OF _ destroy_n_modifies[of p "{fst p}"]]) auto

lemma frame_uninitialized_copy_n:
  "frame_rel g B N s0 s \<Longrightarrow> touchable B s0 (fst dst) \<Longrightarrow>
     post (\<lambda>_. frame_rel g B N s0) (frame_rel g B N s0) (uninitialized_copy_n T s src n dst)"
  by (rule frame_prim[OF _ uninitialized_copy_n_modifies[of dst "{fst dst}"]]) auto

lemma frame_uninitialized_move_n:
  "frame_rel g B N s0 s \<Longrightarrow> touchable B s0 (fst src) \<Longrightarrow> touchable B s0 (fst dst) \<Longrightarrow>
     post (\<lambda>_. frame_rel g B N s0) (frame_rel g B N s0) (uninitialized_move_n T s src n dst)"
  by (rule frame_prim[OF _ uninitialized_move_n_modifies[of src "{fst src, fst dst}" dst]]) auto

lemma frame_uninitialized_value_construct_n:
  "frame_rel g B N s0 s \<Longrightarrow> touchable B s0 (fst p) \<Longrightarrow>
     post (\<lambda>_. frame_rel g B N s0) (frame_rel g B N s0) (uninitialized_value_construct_n T s p n)"
  by (rule frame_prim[OF _ uninitialized_value_construct_n_modifies[of p "{fst p}"]]) auto

lemma frame_std_copy:
  "frame_rel g B N s0 s \<Longrightarrow> touchable B s0 (fst dst) \<Longrightarrow>
     post (\<lambda>_. frame_rel g B N s0) (frame_rel g B N s0) (std_copy T s src n dst)"
  by (rule frame_prim[OF _ std_copy_modifies[of dst "{fst dst}"]]) auto

lemma frame_std_move:
  "frame_rel g B N s0 s \<Longrightarrow> touchable B s0 (fst src) \<Longrightarrow> touchable B s0 (fst dst) \<Longrightarrow>
     post (\<lambda>_. frame_rel g B N s0) (frame_rel g B N s0) (std_move T s src n dst)"
  by (rule frame_prim[OF _ std_move_modifies[of src "{fst src, fst dst}" dst]]) auto

lemma frame_std_move_backward:
  "frame_rel g B N s0 s \<Longrightarrow> touchable B s0 (fst src) \<Longrightarrow> touchable B s0 (fst dst) \<Longrightarrow>
     post (\<lambda>_. frame_rel g B N s0) (frame_rel g B N s0) (std_move_backward T s src n dst)"
  by (rule frame_prim[OF _ std_move_backward_modifies[of src "{fst src, fst dst}" dst]]) auto

lemma frame_move_construct:
  "frame_rel g B N s0 s \<Longrightarrow> touchable B s0 (fst src) \<Longrightarrow> touchable B s0 (fst dst) \<Longrightarrow>
     post (\<lambda>_. frame_rel g B N s0) (frame_rel g B N s0) (move_construct T s src dst)"
  by (rule frame_prim[OF _ move_construct_modifies[of src "{fst src, fst dst}" dst]]) auto

lemma frame_construct_from:
  assumes "frame_rel g B N s0 s" and "touchable B s0 (fst dst)"
    and "\<forall>p. args = MoveOf (At p) \<longrightarrow> touchable B s0 (fst p)"
  shows "post (\<lambda>_. frame_rel g B N s0) (frame_rel g B N s0) (construct_from T s dst args)"
  by (rule frame_prim[OF assms(1) construct_from_modifies[of dst "{a. touchable B s0 a}"]])
    (use assms in auto)

lemma frame_unwind_raw:
  "frame_rel g B N s0 s \<Longrightarrow> touchable B s0 (m_buffer d) \<Longrightarrow>
     post (\<lambda>_. frame_rel g B N s0) (frame_rel g B N s0) (unwind_raw d s)"
  by (simp add: unwind_raw_def frame_RawMemory_dtor)

lemma frame_rel_sized: "frame_rel g B N s0 s \<Longrightarrow> vecs s w = Some V \<Longrightarrow> m_size V \<le> Capacity V"
  by (simp add: frame_rel_def sized_ok_def)

lemma frame_rel_grown:
  "frame_rel g B N s0 s \<Longrightarrow> vecs s w = Some V \<Longrightarrow> g \<Longrightarrow> vecs s0 w = Some V0 \<Longrightarrow>
     Capacity V0 \<le> Capacity V"
  by (fastforce simp add: frame_rel_def grows_def)

lemma GetAddress_simps [simp]: "fst (GetAddress d) = m_buffer d" "snd (GetAddress d) = 0"
  by (simp_all add: GetAddress_def)

lemma begin_end_simps [simp]:
  "fst (begin_of V) = m_buffer (m_data V)" "snd (begin_of V) = 0"
  "fst (end_of V) = m_buffer (m_data V)" "snd (end_of V) = m_size V"
  by (simp_all add: begin_of_def end_of_def)

lemma frame_copy_of:
  assumes I: "frame_rel g B N s0 s"
  shows "post (\<lambda>C s1. frame_rel g B N s0 s1 \<and> m_size C = m_size W \<and> Capacity C = m_size W \<and>
                  touchable B s0 (m_buffer (m_data C)))
           (frame_rel g B N s0) (copy_of T s W)"
  unfolding copy_of_def
  by (rule post_then_do[OF frame_RawMemory_ctor[OF I]])
     (auto intro!: post_then_do[where ?P1.0 = "\<lambda>_. frame_rel g B N s0"]
        post_on_throw[where ?Q1.0 = "frame_rel g B N s0"]
        frame_uninitialized_copy_n frame_unwind_raw simp add: Capacity_def)

lemma frame_destroy_vec:
  assumes I: "frame_rel g B N s0 s" and "touchable B s0 (m_buffer (m_data V))"
  shows "post (\<lambda>_. frame_rel g B N s0) (frame_rel g B N s0) (destroy_vec s V)"
  unfolding destroy_vec_def using assms
  by (auto intro!: post_then_do[where ?P1.0 = "\<lambda>_. frame_rel g B N s0"]
       frame_destroy_n frame_RawMemory_dtor)

lemma frame_CreateCopy:
  assumes I: "frame_rel g B N s0 s" and "touchable B s0 (m_buffer (m_data V))"
  shows "post (\<lambda>d s1. frame_rel g B N s0 s1 \<and> m_capacity d = c \<and> touchable B s0 (m_buffer d))
           (frame_rel g B N s0) (CreateCopy T s V c)"
  unfolding CreateCopy_def using assms(2)
  by (intro post_then_do[OF frame_RawMemory_ctor[OF I]])
     (auto intro!: post_then_do[where ?P1.0 = "\<lambda>_. frame_rel g B N s0"]
        post_on_throw[where ?Q1.0 = "frame_rel g B N s0"]
        frame_uninitialized_copy_n frame_uninitialized_move_n frame_unwind_raw)


lemma frame_prim_vecs:
  assumes "frame_rel g B N s0 s" and "leaves (modifies A s) m" and "\<forall>a\<in>A. touchable B s0 a"
  shows "post (\<lambda>_ s1. frame_rel g B N s0 s1 \<and> vecs s1 = vecs s) (frame_rel g B N s0) m"
  using assms by (cases m) (auto intro: frame_rel_modifies simp add: modifies_def)

lemma vecs_set_vec [simp]: "vecs (set_vec s this V) = (vecs s)(this := Some V)"
  by (simp add: set_vec_def)

lemma vecs_RawMemory_dtor [simp]: "vecs (RawMemory_dtor s d) = vecs s"
  by (simp add: RawMemory_dtor_def Deallocate_def split: option.splits)

lemma frame_Reserve:
  assumes I: "frame_rel g B N s0 s" and V: "vecs s this = Some V" and N: "this \<in> N"
    and t: "touchable B s0 (m_buffer (m_data V))"
    and g: "g \<Longrightarrow> \<forall>V0. vecs s0 this = Some V0 \<longrightarrow> Capacity V0 \<le> Capacity V"
  shows "post (\<lambda>_ s1. frame_rel g B N s0 s1 \<and>
                  (\<exists>V1. vecs s1 this = Some V1 \<and> m_size V1 = m_size V \<and> c \<le> Capacity V1 \<and>
                        Capacity V \<le> Capacity V1 \<and> touchable B s0 (m_buffer (m_data V1))))
           (frame_rel g B N s0) (Reserve T s this c)"
proof (cases "c \<le> m_capacity (m_data V)")
  case True
  then show ?thesis using I V t by (simp add: Reserve_def Capacity_def)
next
  case False
  have sz: "m_size V \<le> Capacity V" using I V by (rule frame_rel_sized)
  have K: "post (\<lambda>_ s1. frame_rel g B N s0 s1 \<and>
                  (\<exists>V1. vecs s1 this = Some V1 \<and> m_size V1 = m_size V \<and> c \<le> Capacity V1 \<and>
                        Capacity V \<le> Capacity V1 \<and> touchable B s0 (m_buffer (m_data V1))))
           (frame_rel g B N s0)
           (then_do (destroy_n (set_vec s1 this (V\<lparr>m_data := d\<rparr>)) (GetAddress (m_data V)) (Size V))
              (\<lambda>_ s3. Ok () (RawMemory_dtor s3 (m_data V))))"
    if d: "frame_rel g B N s0 s1" "m_capacity d = c" "touchable B s0 (m_buffer d)" for d s1
  proof -
    let ?s2 = "set_vec s1 this (V\<lparr>m_data := d\<rparr>)"
    have I2: "frame_rel g B N s0 ?s2"
      using d N sz False g by (intro frame_set_vec) (auto simp add: Capacity_def)
    show ?thesis
      apply (rule post_then_do[OF frame_prim_vecs[OF I2 destroy_n_modifies[of _ "{m_buffer (m_data V)}"]]])
      using t d False by (auto simp add: frame_RawMemory_dtor Capacity_def)
  qed
  show ?thesis
    unfolding Reserve_def using V False
    apply (simp add: Let_def)
    apply (rule post_then_do[OF frame_CreateCopy[OF I t]])
    apply (elim conjE)
    apply (rule K; assumption)
    done
qed

lemma frame_PopBack:
  assumes I: "frame_rel g B N s0 s" and V: "vecs s this = Some V" and N: "this \<in> N"
    and t: "touchable B s0 (m_buffer (m_data V))"
  shows "post (\<lambda>_ s1. frame_rel g B N s0 s1 \<and>
                  vecs s1 this = Some (V\<lparr>m_size := m_size V - 1\<rparr>))
           (frame_rel g B N s0) (PopBack s this)"
proof (cases "m_size V > 0")
  case False
  then show ?thesis using I V by (simp add: PopBack_def)
next
  case True
  have sz: "m_size V \<le> Capacity V" using I V by (rule frame_rel_sized)
  have g: "\<forall>V0. vecs s0 this = Some V0 \<longrightarrow> Capacity V0 \<le> Capacity V" if g
    using frame_rel_grown[OF I V that] by simp
  show ?thesis
    unfolding PopBack_def using V True
    apply simp
    apply (rule post_then_do[OF frame_prim_vecs[OF I destroy_at_modifies[of _ "{m_buffer (m_data V)}"]]])
    using t N sz g by (auto intro!: frame_set_vec simp add: Capacity_def)
qed


lemmas frame_intros =
  frame_destroy_at frame_construct_at frame_destroy_n frame_uninitialized_copy_n
  frame_uninitialized_move_n frame_uninitialized_value_construct_n frame_std_copy
  frame_std_move frame_std_move_backward frame_move_construct frame_unwind_raw

lemma frame_Resize:
  assumes I: "frame_rel g B N s0 s" and V: "vecs s this = Some V" and N: "this \<in> N"
    and t: "touchable B s0 (m_buffer (m_data V))"
  shows "post (\<lambda>_. frame_rel g B N s0) (frame_rel g B N s0) (Resize T s this count)"
proof -
  have sz: "m_size V \<le> Capacity V" using I V by (rule frame_rel_sized)
  have g: "\<forall>V0. vecs s0 this = Some V0 \<longrightarrow> Capacity V0 \<le> Capacity V" if g
    using frame_rel_grown[OF I V that] by simp
  let ?P1 = "\<lambda>(_::unit) s2. frame_rel g B N s0 s2 \<and>
     (\<exists>V2. vecs s2 this = Some V2 \<and> count \<le> Capacity V2 \<and> Capacity V \<le> Capacity V2)"
  have first: "post ?P1 (frame_rel g B N s0)
     (if count > m_size V then
               then_do (Reserve T s this count)
                 (\<lambda>_ s1. case vecs s1 this of
                    None \<Rightarrow> Undefined
                  | Some V1 \<Rightarrow>
                      uninitialized_value_construct_n T s1
                        (ptr_add (GetAddress (m_data V1)) (m_size V1)) (count - m_size V1))
             else destroy_n s (ptr_add (GetAddress (m_data V)) count) (m_size V - count))"
  proof (cases "count > m_size V")
    case True
    have H: "post ?P1 (frame_rel g B N s0) (uninitialized_value_construct_n T s1 p n)"
      if "frame_rel g B N s0 s1" "vecs s1 this = Some V1" "count \<le> Capacity V1"
         "Capacity V \<le> Capacity V1" "touchable B s0 (m_buffer (m_data V1))"
         "fst p = m_buffer (m_data V1)" for s1 V1 p n
      using that
      by (auto intro!: post_weaken[OF frame_prim_vecs[OF _
              uninitialized_value_construct_n_modifies[of _ "{m_buffer (m_data V1)}"]]])
    show ?thesis
      using True
      apply simp
      apply (rule post_then_do[OF frame_Reserve[OF I V N t g]])
       apply assumption
      apply (elim conjE exE)
      apply simp
      apply (rule H; simp)
      done
  next
    case False
    then show ?thesis
      using I V t sz
      by (auto intro!: post_weaken[OF frame_prim_vecs[OF _
              destroy_n_modifies[of _ "{m_buffer (m_data V)}"]]])
  qed
  show ?thesis
    unfolding Resize_def using V
    apply (simp split del: if_split)
    apply (rule post_then_do[OF first])
    using N g by (auto intro!: frame_set_vec simp add: Capacity_def split: option.splits)
qed

lemma frame_Emplace_realloc:
  assumes I: "frame_rel g B N s0 s" and V: "vecs s this = Some V" and N: "this \<in> N"
    and t: "touchable B s0 (m_buffer (m_data V))" and full: "m_size V = Capacity V"
    and ar: "\<forall>p. args = MoveOf (At p) \<longrightarrow> touchable B s0 (fst p)"
  shows "post (\<lambda>_ s1. frame_rel g B N s0 s1 \<and>
                  (\<exists>V1. vecs s1 this = Some V1 \<and> m_size V1 < Capacity V1))
           (frame_rel g B N s0) (Emplace_realloc T s this V shift args)"
proof -
  have g: "\<forall>V0. vecs s0 this = Some V0 \<longrightarrow> Capacity V0 \<le> Capacity V" if g
    using frame_rel_grown[OF I V that] by simp
  show ?thesis
    unfolding Emplace_realloc_def
    apply (rule post_then_do[OF frame_RawMemory_ctor[OF I]])
    apply (elim conjE)
    subgoal for d s1
      apply (rule post_then_do[where ?P1.0 = "\<lambda>_. frame_rel g B N s0"])
       apply (rule post_on_throw[where ?Q1.0 = "frame_rel g B N s0"])
      using t ar
        apply (auto simp add: RawMemory_plus_def
          intro!: post_then_do[where ?P1.0 = "\<lambda>_. frame_rel g B N s0"]
          post_on_throw[where ?Q1.0 = "frame_rel g B N s0"] frame_intros frame_construct_from
          split: option.splits)[2]
      using N full g
      apply (auto simp add: Let_def Capacity_def intro!: frame_RawMemory_dtor frame_set_vec t)
      done
    done
qed

lemma frame_Emplace_inplace:
  assumes I: "frame_rel g B N s0 s" and t: "touchable B s0 (m_buffer (m_data V))"
    and ar: "\<forall>p. args = MoveOf (At p) \<longrightarrow> touchable B s0 (fst p)"
  shows "post (\<lambda>_ s1. frame_rel g B N s0 s1 \<and> vecs s1 = vecs s)
           (frame_rel g B N s0) (Emplace_inplace T s V shift args)"
proof -
  have "leaves (modifies {a. touchable B s0 a} s) (Emplace_inplace T s V shift args)"
    unfolding Emplace_inplace_def
    using t ar
    by (auto simp add: RawMemory_plus_def
        intro!: modifies_then_do modifies_on_throw move_construct_modifies
          std_move_backward_modifies destroy_n_modifies destroy_at_modifies construct_from_modifies
        split: option.splits)
  from frame_prim_vecs[OF I this] show ?thesis by simp
qed


lemma frame_Emplace:
  assumes I: "frame_rel g B N s0 s" and V: "vecs s this = Some V" and N: "this \<in> N"
    and t: "touchable B s0 (m_buffer (m_data V))"
    and ar: "\<forall>p. args = MoveOf (At p) \<longrightarrow> touchable B s0 (fst p)"
  shows "post (\<lambda>_. frame_rel g B N s0) (frame_rel g B N s0) (Emplace T s this pos args)"
proof (cases "fst pos = m_buffer (m_data V) \<and> snd pos \<le> m_size V")
  case False
  then show ?thesis using V by (auto simp add: Emplace_def)
next
  case True
  have sz: "m_size V \<le> Capacity V" using I V by (rule frame_rel_sized)
  have g: "\<forall>V0. vecs s0 this = Some V0 \<longrightarrow> Capacity V0 \<le> Capacity V" if g
    using frame_rel_grown[OF I V that] by simp
  let ?P1 = "\<lambda>(_::ptr) s1. frame_rel g B N s0 s1 \<and>
                  (\<exists>V1. vecs s1 this = Some V1 \<and> m_size V1 < Capacity V1)"
  have first: "post ?P1 (frame_rel g B N s0)
      (if m_size V = Capacity V
               then Emplace_realloc T s this V (snd pos) args
               else Emplace_inplace T s V (snd pos) args)"
  proof (cases "m_size V = Capacity V")
    case True
    then show ?thesis using frame_Emplace_realloc[OF I V N t True ar] by simp
  next
    case False
    then have "m_size V < Capacity V" using sz by simp
    then show ?thesis
      using False V by (auto intro!: post_weaken[OF frame_Emplace_inplace[OF I t ar]])
  qed
  show ?thesis
    unfolding Emplace_def using V True
    apply (simp split del: if_split)
    apply (rule post_then_do[OF first])
    apply (elim conjE exE)
    subgoal for p s1 V1
      using frame_rel_grown[of g B N s0 s1 this V1] N
      by (auto intro!: frame_set_vec simp add: Capacity_def)
    done
qed

lemma frame_Erase:
  assumes I: "frame_rel g B N s0 s" and V: "vecs s this = Some V" and N: "this \<in> N"
    and t: "touchable B s0 (m_buffer (m_data V))"
  shows "post (\<lambda>_. frame_rel g B N s0) (frame_rel g B N s0) (Erase T s this pos)"
proof (cases "fst pos = m_buffer (m_data V) \<and> snd pos < m_size V")
  case False
  then show ?thesis using V by (auto simp add: Erase_def)
next
  case True
  show ?thesis
    unfolding Erase_def using V True
    apply simp
    apply (rule post_then_do[OF frame_prim_vecs[OF I std_move_modifies[of _ "{m_buffer (m_data V)}"]]])
       apply (simp_all add: t)
    apply (elim conjE)
    subgoal for s1
      apply (rule post_then_do[OF frame_PopBack[of g B N s0 s1 this V]])
      using N t by (auto split: option.splits)
    done
qed

lemma frame_EmplaceBack:
  assumes I: "frame_rel g B N s0 s" and V: "vecs s this = Some V" and N: "this \<in> N"
    and t: "touchable B s0 (m_buffer (m_data V))"
    and ar: "\<forall>p. args = MoveOf (At p) \<longrightarrow> touchable B s0 (fst p)"
  shows "post (\<lambda>_. frame_rel g B N s0) (frame_rel g B N s0) (EmplaceBack T s this args)"
  using V by (simp add: EmplaceBack_def frame_Emplace[OF I V N t ar])

lemma frame_discard:
  "post (\<lambda>_. I) I m \<Longrightarrow> post (\<lambda>_. I) I (discard m)"
  unfolding discard_def by (erule post_then_do) simp

lemma frame_PushBack:
  assumes I: "frame_rel g B N s0 s" and V: "vecs s this = Some V" and N: "this \<in> N"
    and t: "touchable B s0 (m_buffer (m_data V))"
    and ar: "\<forall>p. args = MoveOf (At p) \<longrightarrow> touchable B s0 (fst p)"
  shows "post (\<lambda>_. frame_rel g B N s0) (frame_rel g B N s0) (PushBack T s this args)"
  unfolding PushBack_def
  by (rule post_then_do[OF frame_EmplaceBack[OF I V N t ar]]) simp

lemma frame_subscript_assign:
  assumes I: "frame_rel g B N s0 s" and V: "vecs s this = Some V"
    and t: "touchable B s0 (m_buffer (m_data V))"
  shows "post (\<lambda>_. frame_rel g B N s0) (frame_rel g B N s0) (subscript_assign T s this i x)"
  using V I t
  by (auto simp add: subscript_assign_def
      intro!: frame_rel_modifies[OF _ modifies_put_slot[of _ "{m_buffer (m_data V)}"]])

lemma frame_Vector_default:
  assumes I: "frame_rel g B N s0 s" and N: "this \<in> N"
  shows "post (\<lambda>_. frame_rel g B N s0) (frame_rel g B N s0) (Vector_default s this)"
proof (cases "vecs s this")
  case None
  have "vecs s0 this = None" if g
    using I that None by (fastforce simp add: frame_rel_def grows_def)
  then show ?thesis
    using None N
    by (auto simp add: Vector_default_def empty_Vector_def Capacity_def intro!: frame_set_vec[OF I])
qed (simp add: Vector_default_def)

lemma frame_Vector_sized:
  assumes I: "frame_rel g B N s0 s" and N: "this \<in> N"
  shows "post (\<lambda>_. frame_rel g B N s0) (frame_rel g B N s0) (Vector_sized T s this n)"
proof (cases "vecs s this")
  case None
  have g: "vecs s0 this = None" if g
    using I that None by (fastforce simp add: frame_rel_def grows_def)
  show ?thesis
    unfolding Vector_sized_def using None
    apply simp
    apply (rule post_then_do[OF frame_RawMemory_ctor[OF I]])
    apply (elim conjE)
    apply (rule post_then_do[where ?P1.0 = "\<lambda>_. frame_rel g B N s0"])
    using N g
     apply (auto intro!: post_on_throw[where ?Q1.0 = "frame_rel g B N s0"] frame_intros
        frame_set_vec simp add: Capacity_def)
    done
qed (simp add: Vector_sized_def)

lemma frame_Vector_copy:
  assumes I: "frame_rel g B N s0 s" and N: "this \<in> N"
  shows "post (\<lambda>_. frame_rel g B N s0) (frame_rel g B N s0) (Vector_copy T s this other)"
proof (cases "vecs s this")
  case None
  have g: "vecs s0 this = None" if g
    using I that None by (fastforce simp add: frame_rel_def grows_def)
  show ?thesis
    unfolding Vector_copy_def using None
    apply (simp split: option.splits)
    apply (intro allI impI)
    apply (rule post_then_do[OF frame_copy_of[OF I]])
    using N g by (auto intro!: frame_set_vec)
qed (simp add: Vector_copy_def)


lemma frame_Vector_copy_assign:
  assumes I: "frame_rel g B N s0 s" and V: "vecs s this = Some V" and N: "this \<in> N"
    and t: "touchable B s0 (m_buffer (m_data V))"
  shows "post (\<lambda>_. frame_rel g B N s0) (frame_rel g B N s0) (Vector_copy_assign T s this rhs)"
proof (cases "vecs s rhs")
  case None
  then show ?thesis using V by (simp add: Vector_copy_assign_def)
next
  case (Some R)
  have sz: "m_size V \<le> Capacity V" using I V by (rule frame_rel_sized)
  have g: "\<forall>V0. vecs s0 this = Some V0 \<longrightarrow> Capacity V0 \<le> Capacity V" if g
    using frame_rel_grown[OF I V that] by simp
  consider (same) "this = rhs" | (big) "this \<noteq> rhs" "m_size R > Capacity V"
    | (inplace) "this \<noteq> rhs" "\<not> m_size R > Capacity V"
    by blast
  then show ?thesis
  proof cases
    case same
    then show ?thesis using V Some I by (simp add: Vector_copy_assign_def)
  next
    case big
    show ?thesis
      unfolding Vector_copy_assign_def using V Some big
      apply simp
      apply (rule post_then_do[OF frame_copy_of[OF I]])
      apply (elim conjE)
      apply (rule frame_destroy_vec[OF _ t])
      apply (rule frame_set_vec)
      using N g by auto
  next
    case inplace
    have mid: "post (\<lambda>_. frame_rel g B N s0) (frame_rel g B N s0)
       (if m_size R < m_size V then
                    then_do (std_copy T s (GetAddress (m_data R)) (m_size R) (GetAddress (m_data V)))
                      (\<lambda>_ s1. destroy_n s1 (ptr_add (GetAddress (m_data V)) (m_size R))
                                 (m_size V - m_size R))
                  else
                    then_do (std_copy T s (GetAddress (m_data R)) (m_size V) (GetAddress (m_data V)))
                      (\<lambda>_ s1. uninitialized_copy_n T s1
                                 (ptr_add (GetAddress (m_data R)) (m_size V))
                                 (m_size R - m_size V)
                                 (ptr_add (GetAddress (m_data V)) (m_size V))))"
      using I t
      by (auto intro!: post_then_do[where ?P1.0 = "\<lambda>_. frame_rel g B N s0"] frame_intros)
    show ?thesis
      unfolding Vector_copy_assign_def using V Some inplace
      apply (simp split del: if_split)
      apply (rule post_then_do[OF mid])
      using N g by (auto intro!: frame_set_vec simp add: Capacity_def)
  qed
qed

lemma frame_Swap:
  assumes I: "frame_rel False B N s0 s" and N: "this \<in> N" "other \<in> N"
  shows "post (\<lambda>_. frame_rel False B N s0) (frame_rel False B N s0) (Swap s this other)"
proof (cases "vecs s this")
  case None
  then show ?thesis by (simp add: Swap_def)
next
  case V: (Some V)
  show ?thesis
  proof (cases "vecs s other")
    case None
    then show ?thesis using V by (simp add: Swap_def)
  next
    case W: (Some W)
    have "m_size V \<le> Capacity V" "m_size W \<le> Capacity W"
      using I V W by (auto intro: frame_rel_sized)
    then show ?thesis
      using V W N I
      by (auto simp add: Swap_def Let_def Capacity_def intro!: frame_set_vec)
  qed
qed

lemma frame_Vector_move:
  assumes I: "frame_rel False B N s0 s" and N: "this \<in> N" "other \<in> N"
  shows "post (\<lambda>_. frame_rel False B N s0) (frame_rel False B N s0) (Vector_move s this other)"
proof (cases "vecs s this")
  case None
  have "frame_rel False B N s0 (set_vec s this empty_Vector)"
    using N by (intro frame_set_vec[OF I]) (auto simp add: empty_Vector_def Capacity_def)
  from frame_Swap[OF this N] show ?thesis using None by (simp add: Vector_move_def)
qed (simp add: Vector_move_def)

lemma frame_Vector_move_assign:
  assumes I: "frame_rel False B N s0 s" and N: "this \<in> N" "other \<in> N"
  shows "post (\<lambda>_. frame_rel False B N s0) (frame_rel False B N s0)
           (Vector_move_assign s this other)"
  using frame_Swap[OF I N] I
  by (auto simp add: Vector_move_assign_def split: option.splits)

lemma frame_Vector_dtor:
  assumes I: "frame_rel False B N s0 s" and V: "vecs s this = Some V" and N: "this \<in> N"
    and t: "touchable B s0 (m_buffer (m_data V))"
  shows "post (\<lambda>_. frame_rel False B N s0) (frame_rel False B N s0) (Vector_dtor s this)"
  unfolding Vector_dtor_def using V
  apply simp
  apply (rule post_then_do[OF frame_destroy_vec[OF I t]])
  using N by (auto simp add: frame_rel_def sized_ok_def)

lemma touchable_bufs:
  "vecs s0 v = Some V \<Longrightarrow> v \<in> N \<Longrightarrow> touchable (bufs s0 N) s0 (m_buffer (m_data V))"
  by (auto simp add: touchable_def bufs_def)

lemma bind_operand_touchable:
  assumes "bind_operand s0 a = Some (At p)"
  shows "touchable (bufs s0 (insert v (operand_names a))) s0 (fst p)"
proof (cases a)
  case (Elem w i)
  with assms obtain W where "vecs s0 w = Some W" "fst p = m_buffer (m_data W)"
    by (auto simp add: bind_operand_def subscript_ref_def split: option.splits if_splits)
  then show ?thesis
    using Elem touchable_bufs[of s0 w W "insert v (operand_names a)"] by simp
qed (use assms in \<open>simp add: bind_operand_def\<close>)

lemma bind_args_touchable:
  assumes "bind_args s0 a = Some args"
  shows "\<forall>p. args = MoveOf (At p) \<longrightarrow> touchable (bufs s0 (insert v (args_names a))) s0 (fst p)"
proof (cases a)
  case (MoveOf r)
  then show ?thesis
    using assms bind_operand_touchable[of s0 r _ v]
    by (auto simp add: bind_args_def)
qed (use assms in \<open>auto simp add: bind_args_def\<close>)

lemma frame_rel_weaken_flag: "frame_rel True B N s0 s \<Longrightarrow> frame_rel g B N s0 s"
  by (simp add: frame_rel_def)

lemma run_op_frame:
  assumes ok: "sized_ok s0"
  shows "leaves (frame_rel (\<not> move_swap_or_dtor c) (bufs s0 (names c)) (names c) s0)
           (run_op T s0 c)"
proof -
  note I = frame_rel_refl[OF ok]
  note tb = touchable_bufs
  show ?thesis
  proof (cases c)
    case (OpDefault v)
    then show ?thesis by (simp add: leaves_post frame_Vector_default[OF I])
  next
    case (OpSized v n)
    then show ?thesis by (simp add: leaves_post frame_Vector_sized[OF I])
  next
    case (OpCopy v w)
    then show ?thesis by (simp add: leaves_post frame_Vector_copy[OF I])
  next
    case (OpMove v w)
    then show ?thesis by (simp add: leaves_post frame_Vector_move[OF I])
  next
    case (OpMoveAssign v w)
    then show ?thesis by (simp add: leaves_post frame_Vector_move_assign[OF I])
  next
    case (OpSwap v w)
    then show ?thesis by (simp add: leaves_post frame_Swap[OF I])
  next
    case (OpCopyAssign v w)
    show ?thesis
    proof (cases "vecs s0 v")
      case None
      then show ?thesis using OpCopyAssign by (simp add: Vector_copy_assign_def)
    next
      case (Some V)
      then show ?thesis
        using OpCopyAssign
        by (simp add: leaves_post  frame_Vector_copy_assign[OF I Some _ tb[OF Some]])
    qed
  next
    case (OpDtor v)
    show ?thesis
    proof (cases "vecs s0 v")
      case None
      then show ?thesis using OpDtor by (simp add: Vector_dtor_def)
    next
      case (Some V)
      then show ?thesis
        using OpDtor
        by (simp add: leaves_post  frame_Vector_dtor[OF I Some _ tb[OF Some]])
    qed
  next
    case (OpEmplace v pos a)
    show ?thesis
    proof (cases "vecs s0 v")
      case None
      then show ?thesis
        using OpEmplace by (simp add: Emplace_def discard_def split: option.splits)
    next
      case (Some V)
      show ?thesis
      proof (cases "bind_args s0 a")
        case None
        then show ?thesis using OpEmplace by simp
      next
        case args: (Some args)
        from frame_Emplace[OF I Some _ tb[OF Some] bind_args_touchable[OF args, of v]]
        show ?thesis
          using OpEmplace args by (simp add: leaves_post frame_discard)
      qed
    qed
  next
    case (OpErase v pos)
    show ?thesis
    proof (cases "vecs s0 v")
      case None
      then show ?thesis using OpErase by (simp add: Erase_def discard_def)
    next
      case (Some V)
      then show ?thesis
        using OpErase
        by (simp add: leaves_post  frame_discard frame_Erase[OF I Some _ tb[OF Some]])
    qed
  next
    case (OpInsertCopy v pos a)
    show ?thesis
    proof (cases "vecs s0 v")
      case None
      then show ?thesis
        using OpInsertCopy
        by (simp add: Emplace_def Insert_copy_def discard_def split: option.splits)
    next
      case (Some V)
      show ?thesis
      proof (cases "bind_operand s0 a")
        case None
        then show ?thesis using OpInsertCopy by simp
      next
        case r: (Some r)
        have "post (\<lambda>_. frame_rel True (bufs s0 (insert v (operand_names a)))
                         (insert v (operand_names a)) s0)
                (frame_rel True (bufs s0 (insert v (operand_names a)))
                   (insert v (operand_names a)) s0)
                (Emplace T s0 v pos (CopyOf r))"
          by (rule frame_Emplace[OF I Some _ tb[OF Some]]) auto
        then show ?thesis
          using OpInsertCopy r by (simp add: leaves_post Insert_copy_def frame_discard)
      qed
    qed
  next
    case (OpInsertMove v pos a)
    show ?thesis
    proof (cases "vecs s0 v")
      case None
      then show ?thesis
        using OpInsertMove
        by (simp add: Emplace_def Insert_move_def discard_def split: option.splits)
    next
      case (Some V)
      show ?thesis
      proof (cases "bind_operand s0 a")
        case None
        then show ?thesis using OpInsertMove by simp
      next
        case r: (Some r)
        have "\<forall>p. MoveOf r = MoveOf (At p) \<longrightarrow>
                touchable (bufs s0 (insert v (operand_names a))) s0 (fst p)"
          using bind_operand_touchable[of s0 a _ v] r by simp
        from frame_Emplace[OF I Some _ tb[OF Some] this]
        show ?thesis
          using OpInsertMove r by (simp add: leaves_post Insert_move_def frame_discard)
      qed
    qed
  next
    case (OpResize v n)
    show ?thesis
    proof (cases "vecs s0 v")
      case None
      then show ?thesis using OpResize by (simp add: Resize_def)
    next
      case (Some V)
      then show ?thesis
        using OpResize
        by (simp add: leaves_post  frame_Resize[OF I Some _ tb[OF Some]])
    qed
  next
    case (OpPushBack v a)
    show ?thesis
    proof (cases "vecs s0 v")
      case None
      then show ?thesis
        using OpPushBack by (simp add: PushBack_def EmplaceBack_def split: option.splits)
    next
      case (Some V)
      show ?thesis
      proof (cases "bind_args s0 a")
        case None
        then show ?thesis using OpPushBack by simp
      next
        case args: (Some args)
        from frame_PushBack[OF I Some _ tb[OF Some] bind_args_touchable[OF args, of v]]
        show ?thesis
          using OpPushBack args by (simp add: leaves_post)
      qed
    qed
  next
    case (OpEmplaceBack v a)
    show ?thesis
    proof (cases "vecs s0 v")
      case None
      then show ?thesis
        using OpEmplaceBack by (simp add: EmplaceBack_def discard_def split: option.splits)
    next
      case (Some V)
      show ?thesis
      proof (cases "bind_args s0 a")
        case None
        then show ?thesis using OpEmplaceBack by simp
      next
        case args: (Some args)
        from frame_EmplaceBack[OF I Some _ tb[OF Some] bind_args_touchable[OF args, of v]]
        show ?thesis
          using OpEmplaceBack args by (simp add: leaves_post frame_discard)
      qed
    qed
  next
    case (OpAssignAt v i x)
    show ?thesis
    proof (cases "vecs s0 v")
      case None
      then show ?thesis using OpAssignAt by (simp add: subscript_assign_def)
    next
      case (Some V)
      then show ?thesis
        using OpAssignAt
        by (simp add: leaves_post  frame_subscript_assign[OF I Some tb[OF Some]])
    qed
  next
    case (OpReserve v n)
    show ?thesis
    proof (cases "vecs s0 v")
      case None
      then show ?thesis using OpReserve by (simp add: Reserve_def)
    next
      case (Some V)
      have "post (\<lambda>_. frame_rel True (bufs s0 {v}) {v} s0) (frame_rel True (bufs s0 {v}) {v} s0)
              (Reserve T s0 v n)"
        by (rule post_weaken[OF frame_Reserve[OF I Some _ tb[OF Some]]]) (use Some in auto)
      then show ?thesis using OpReserve by (simp add: leaves_post)
    qed
  next
    case (OpPopBack v)
    show ?thesis
    proof (cases "vecs s0 v")
      case None
      then show ?thesis using OpPopBack by (simp add: PopBack_def)
    next
      case (Some V)
      have "post (\<lambda>_. frame_rel True (bufs s0 {v}) {v} s0) (frame_rel True (bufs s0 {v}) {v} s0)
              (PopBack s0 v)"
        by (rule post_weaken[OF frame_PopBack[OF I Some _ tb[OF Some]]]) auto
      then show ?thesis using OpPopBack by (simp add: leaves_post)
    qed
  qed
qed

section \<open>Size and capacity in reachable states\<close>

lemma after_Some_iff:
  "after m = Some s' \<longleftrightarrow> (\<exists>r. m = Ok r s') \<or> (\<exists>e. m = Throw e s')"
  by (cases m) (auto simp add: after_def)

lemma leaves_after: "leaves P m \<Longrightarrow> after m = Some s' \<Longrightarrow> P s'"
  by (cases m) (auto simp add: after_def)

lemma run_op_sized_ok:
  "sized_ok s \<Longrightarrow> after (run_op T s c) = Some s' \<Longrightarrow> sized_ok s'"
  using leaves_after[OF run_op_frame] by (fastforce simp add: frame_rel_def)

lemma run_ops_sized_ok:
  "sized_ok s0 \<Longrightarrow> run_ops T s0 cs = Some s \<Longrightarrow> sized_ok s"
proof (induction cs arbitrary: s0)
  case (Cons c cs)
  then show ?case
    by (auto split: option.splits intro: run_op_sized_ok)
qed simp

text \<open>
  C4. In every state a program reaches from a state without vectors, by any sequence of
  the public operations (exceptions caught or not), every vector has
  \<open>0 \<le> size \<le> capacity\<close>; and from such a state no operation other than a move
  (construction or assignment), a swap or a destruction leaves any vector with a smaller
  capacity than it had, whether the operation returns or throws.
\<close>

theorem size_within_capacity:
  assumes "vecs s0 = (\<lambda>_. None)" and "run_ops T s0 cs = Some s"
  shows "(\<forall>v V. vecs s v = Some V \<longrightarrow> 0 \<le> Size V \<and> Size V \<le> Capacity V) \<and>
         (\<forall>c s' v V. \<not> move_swap_or_dtor c \<and> after (run_op T s c) = Some s' \<and> vecs s v = Some V \<longrightarrow>
             (\<exists>V'. vecs s' v = Some V' \<and> Capacity V \<le> Capacity V'))"
proof -
  have "sized_ok s0" using assms(1) by (simp add: sized_ok_def)
  then have ok: "sized_ok s" using assms(2) by (rule run_ops_sized_ok)
  have "\<exists>V'. vecs s' v = Some V' \<and> Capacity V \<le> Capacity V'"
    if "\<not> move_swap_or_dtor c" "after (run_op T s c) = Some s'" "vecs s v = Some V" for c s' v V
  proof -
    have "frame_rel (\<not> move_swap_or_dtor c) (bufs s (names c)) (names c) s s'"
      using run_op_frame[OF ok] that(2) by (rule leaves_after)
    then have "grows s s'" using that(1) by (simp add: frame_rel_def)
    then show ?thesis using that(3) by (simp add: grows_def)
  qed
  then show ?thesis using ok by (auto simp add: sized_ok_def Size_def)
qed

lemma small_program_runs:
  "map_option (\<lambda>s. (vecs s 2, elems s 2)) (run_ops number_traits (initial 100) small_program)
    = Some (Some \<lparr>m_data = \<lparr>m_buffer = 3, m_capacity = 4\<rparr>, m_size = 4\<rparr>, [5, 9, 6, 7])"
  by code_simp

theorem size_within_capacity_witness:
  "vecs (initial 100 :: nat state) = (\<lambda>_. None) \<and>
   (\<exists>s. run_ops number_traits (initial 100) small_program = Some s \<and>
        map_option (\<lambda>V. (Size V, Capacity V)) (vecs s 2) = Some (4, 4) \<and>
        (\<exists>s'. after (run_op number_traits s (OpPushBack 2 (CopyOf (Val 8)))) = Some s' \<and>
              (\<exists>V'. vecs s' 2 = Some V' \<and> 4 \<le> Capacity V')))"
proof -
  have i: "vecs (initial 100 :: nat state) = (\<lambda>_. None)" by (simp add: initial_def)
  obtain s where s: "run_ops number_traits (initial 100) small_program = Some s"
    using small_program_runs by auto
  have v: "vecs s 2 = Some \<lparr>m_data = \<lparr>m_buffer = 3, m_capacity = 4\<rparr>, m_size = 4\<rparr>"
    using small_program_runs s by simp
  have "map_option (\<lambda>s. after (run_op number_traits s (OpPushBack 2 (CopyOf (Val 8)))) \<noteq> None)
          (run_ops number_traits (initial 100) small_program) = Some True"
    by code_simp
  then obtain s' where s': "after (run_op number_traits s (OpPushBack 2 (CopyOf (Val 8)))) = Some s'"
    using s by auto
  have "\<exists>V'. vecs s' 2 = Some V' \<and>
          Capacity \<lparr>m_data = \<lparr>m_buffer = 3, m_capacity = 4\<rparr>, m_size = 4\<rparr> \<le> Capacity V'"
    using conjunct2[OF size_within_capacity[OF i s], rule_format,
        of "OpPushBack 2 (CopyOf (Val 8))" s' 2] s' v
    by simp
  then have "\<exists>V'. vecs s' 2 = Some V' \<and> 4 \<le> Capacity V'"
    by (simp add: Capacity_def)
  then show ?thesis using i s v s' by (simp add: Size_def Capacity_def)
qed

section \<open>Growth at full capacity\<close>

lemma post_True [simp]: "post (\<lambda>_ _. True) (\<lambda>_. True) m"
  by (cases m) simp_all

lemma then_do_Ok_iff:
  "then_do m f = Ok r s' \<longleftrightarrow> (\<exists>r1 s1. m = Ok r1 s1 \<and> f r1 s1 = Ok r s')"
  by (cases m) simp_all

lemma then_do_Throw_iff:
  "then_do m f = Throw e s' \<longleftrightarrow>
     m = Throw e s' \<or> (\<exists>r1 s1. m = Ok r1 s1 \<and> f r1 s1 = Throw e s')"
  by (cases m) auto

lemma Emplace_realloc_capacity:
  "post (\<lambda>p s1. vecs s1 v = Some (V\<lparr>m_data := \<lparr>m_buffer = m_buffer (m_data (the (vecs s1 v))),
                    m_capacity = (if m_size V = 0 then 1 else m_size V * 2)\<rparr>\<rparr>))
     (\<lambda>_. True) (Emplace_realloc T s v V shift args)"
  unfolding Emplace_realloc_def
  apply (rule post_then_do[where ?P1.0 = "\<lambda>d s1. m_capacity d = (if m_size V = 0 then 1 else m_size V * 2)"])
   apply (simp add: RawMemory_ctor_def Allocate_def operator_new_def)
  apply (rule post_then_do[where ?P1.0 = "\<lambda>_ _. True"])
   apply (rule post_weaken[OF post_True]; simp)
  subgoal for d s1 by (cases d) (simp add: Let_def)
  done

lemma Emplace_at_capacity:
  assumes V: "vecs s v = Some V" and full: "m_size V = Capacity V"
    and ok: "Emplace T s v pos args = Ok p s'"
  shows "\<exists>V'. vecs s' v = Some V' \<and> Capacity V' = max 1 (2 * m_size V) \<and> m_size V' = m_size V + 1"
proof -
  from ok V full obtain q s1 where
    r: "Emplace_realloc T s v V (snd pos) args = Ok q s1"
    and fin: "(case vecs s1 v of None \<Rightarrow> Undefined
               | Some V1 \<Rightarrow> Ok q (set_vec s1 v (V1\<lparr>m_size := m_size V1 + 1\<rparr>))) = Ok p s'"
    by (cases "Emplace_realloc T s v V (snd pos) args")
      (auto simp add: Emplace_def split: if_splits)
  from Emplace_realloc_capacity[of v V T s "snd pos" args] r
  obtain d where d: "vecs s1 v = Some (V\<lparr>m_data := d\<rparr>)"
    "m_capacity d = (if m_size V = 0 then 1 else m_size V * 2)"
    by auto
  from fin d show ?thesis
    by (auto simp add: Capacity_def max_def)
qed

text \<open>
  C6. When the size of a vector equals its capacity, an insertion or append
  (\<^verbatim>\<open>Emplace\<close>, either \<^verbatim>\<open>Insert\<close>, \<^verbatim>\<open>EmplaceBack\<close>, \<^verbatim>\<open>PushBack\<close>) that returns
  leaves the capacity at \<open>max 1 (2 * size)\<close> for the size before the call: 1 for an
  empty vector, twice the old size otherwise.
\<close>

theorem growth_doubles:
  assumes "vecs s v = Some V" and "Size V = Capacity V"
    and "Emplace T s v pos args = Ok p s' \<or> Insert_copy T s v pos x = Ok p s' \<or>
         Insert_move T s v pos x = Ok p s' \<or> EmplaceBack T s v args = Ok p s' \<or>
         PushBack T s v args = Ok () s'"
  shows "map_option Capacity (vecs s' v) = Some (max 1 (2 * Size V))"
proof -
  have E: "map_option Capacity (vecs s' v) = Some (max 1 (2 * Size V))"
    if "Emplace T s v pos' args' = Ok p' s'" for pos' args' p'
    using Emplace_at_capacity[OF assms(1) _ that] assms(2) by (auto simp add: Size_def)
  from assms(3) show ?thesis
  proof (elim disjE)
    assume "Emplace T s v pos args = Ok p s'"
    then show ?thesis by (rule E)
  next
    assume "Insert_copy T s v pos x = Ok p s'"
    then show ?thesis unfolding Insert_copy_def by (rule E)
  next
    assume "Insert_move T s v pos x = Ok p s'"
    then show ?thesis unfolding Insert_move_def by (rule E)
  next
    assume "EmplaceBack T s v args = Ok p s'"
    then have "Emplace T s v (end_of V) args = Ok p s'"
      using assms(1) by (simp add: EmplaceBack_def)
    then show ?thesis by (rule E)
  next
    assume "PushBack T s v args = Ok () s'"
    then obtain r where "EmplaceBack T s v args = Ok r s'"
      by (auto simp add: PushBack_def then_do_Ok_iff)
    then have "Emplace T s v (end_of V) args = Ok r s'"
      using assms(1) by (simp add: EmplaceBack_def)
    then show ?thesis by (rule E)
  qed
qed

lemma two_vectors_insert:
  "(case Emplace number_traits two_vectors 3 (20, 1) (CopyOf (Obj 9)) of
      Ok p s' \<Rightarrow> p = (21, 1) \<and> elems s' 3 = [5, 9, 6]
    | _ \<Rightarrow> False)"
  by code_simp

theorem growth_doubles_witness:
  "\<exists>p s'. Emplace number_traits two_vectors 3 (20, 1) (CopyOf (Obj 9)) = Ok p s' \<and>
          map_option Capacity (vecs s' 3) = Some 4"
proof -
  obtain p s' where ok: "Emplace number_traits two_vectors 3 (20, 1) (CopyOf (Obj 9)) = Ok p s'"
    using two_vectors_insert
    by (cases "Emplace number_traits two_vectors 3 (20, 1) (CopyOf (Obj 9))") auto
  from growth_doubles[OF two_vectors_simps(2) _ disjI1, OF _ ok] show ?thesis
    using ok by (simp add: Size_def Capacity_def)
qed

section \<open>Exceptions during growth\<close>

lemma nothrow_simps [simp]: "nothrow (Ok r s)" "nothrow Undefined" "\<not> nothrow (Throw e s)"
  by (simp_all add: nothrow_def)

lemma nothrow_then_do: "nothrow m \<Longrightarrow> (\<And>r s. nothrow (f r s)) \<Longrightarrow> nothrow (then_do m f)"
  by (cases m) auto

lemma nothrow_on_throw: "nothrow m \<Longrightarrow> nothrow (on_throw m c)"
  by (cases m) auto

lemma nothrow_post: "nothrow m \<Longrightarrow> post (\<lambda>_ _. True) Q m"
  by (cases m) auto

lemma construct_at_nothrow [simp]: "nothrow (construct_at s p x)"
  by (simp add: construct_at_def)

lemma destroy_at_nothrow [simp]: "nothrow (destroy_at s p)"
  by (simp add: destroy_at_def)

lemma destroy_n_nothrow [simp]: "nothrow (destroy_n s p n)"
  by (induction n arbitrary: s p) (auto simp add: ptr_add_def intro!: nothrow_then_do)

lemma move_construct_nothrow:
  "is_nothrow_move_constructible T \<Longrightarrow> nothrow (move_construct T s src dst)"
  by (auto simp add: move_construct_def move_throws_def intro!: nothrow_then_do
      split: option.splits)

lemma uninitialized_move_n_nothrow:
  "is_nothrow_move_constructible T \<Longrightarrow> nothrow (uninitialized_move_n T s src n dst)"
  by (induction n arbitrary: s src dst)
    (auto simp add: ptr_add_def intro!: nothrow_then_do nothrow_on_throw move_construct_nothrow)

lemma alloc_modify_dealloc:
  assumes h: "heap_ok s" and a: "RawMemory_ctor T s n = Ok d s1" and m: "modifies {m_buffer d} s1 s2"
  shows "unchanged s (RawMemory_dtor s2 d)"
proof (cases "n = 0")
  case True
  then have d: "m_buffer d = 0" "s1 = s" using a by (auto simp add: RawMemory_ctor_def Allocate_def)
  have "blocks s2 a = blocks s a" for a
  proof (cases "a = 0")
    case True
    have "map_option length (blocks s2 0) = map_option length (blocks s 0)"
      using m d by (simp add: modifies_def)
    then show ?thesis using h True by (simp add: heap_ok_def)
  next
    case False
    then show ?thesis using m d by (simp add: modifies_def)
  qed
  then have "blocks s2 = blocks s" by (rule ext)
  then show ?thesis
    using m d by (simp add: unchanged_def RawMemory_dtor_def Deallocate_def modifies_def)
next
  case False
  from RawMemory_ctor_Ok[OF a False] obtain k where n: "k \<le> avail s"
    and d': "d = \<lparr>m_buffer = next_addr s, m_capacity = n\<rparr>"
    and s1: "s1 = s\<lparr>blocks := (blocks s)(next_addr s := Some (replicate k None)),
                    next_addr := Suc (next_addr s), avail := avail s - k\<rparr>"
    by blast
  have d: "m_buffer d = next_addr s" using d' by simp
  have nz: "next_addr s \<noteq> 0" and free: "blocks s (next_addr s) = None"
    using h by (auto simp add: heap_ok_def)
  have "map_option length (blocks s2 (next_addr s)) = Some k"
    using m s1 by (simp add: modifies_def)
  then obtain b where b: "blocks s2 (next_addr s) = Some b" "length b = k" by auto
  have other: "blocks s2 a = blocks s a" if "a \<noteq> next_addr s" for a
    using m d s1 that by (simp add: modifies_def)
  have "(blocks s2)(next_addr s := None) = blocks s"
    using other free by auto
  then show ?thesis
    using d b nz n m s1
    by (simp add: unchanged_def RawMemory_dtor_def Deallocate_def modifies_def)
qed

lemma unchanged_refl [simp]: "unchanged s s"
  by (simp add: unchanged_def)

lemma RawMemory_ctor_throw: "RawMemory_ctor T s n = Throw e s' \<Longrightarrow> s' = s"
  by (auto simp add: RawMemory_ctor_def Allocate_def operator_new_def split: if_splits)

lemma construct_from_throw: "construct_from T s dst args = Throw e s' \<Longrightarrow> s' = s"
  by (auto simp add: construct_from_def construct_at_def
      split: ctor_args.splits option.splits if_splits)

lemma post_Throw: "post P Q m \<Longrightarrow> m = Throw e s' \<Longrightarrow> Q s'"
  by simp

lemma post_Ok: "post P Q m \<Longrightarrow> m = Ok r s' \<Longrightarrow> P r s'"
  by simp

lemma CreateCopy_throw:
  assumes h: "heap_ok s" and T: "is_nothrow_move_constructible T \<or> is_copy_constructible T"
  shows "post (\<lambda>_ _. True) (unchanged s) (CreateCopy T s V n)"
proof (cases "RawMemory_ctor T s n")
  case (Ok d s1)
  let ?X = "if is_nothrow_move_constructible T \<or> \<not> is_copy_constructible T
              then uninitialized_move_n T s1 (GetAddress (m_data V)) (Size V) (GetAddress d)
              else uninitialized_copy_n T s1 (GetAddress (m_data V)) (Size V) (GetAddress d)"
  have X: "post (\<lambda>_ _. True) (modifies {m_buffer d} s1) ?X"
  proof (cases "is_nothrow_move_constructible T \<or> \<not> is_copy_constructible T")
    case True
    with T have "is_nothrow_move_constructible T" by blast
    then show ?thesis using True by (simp add: nothrow_post uninitialized_move_n_nothrow)
  next
    case False
    have "leaves (modifies {m_buffer d} s1)
            (uninitialized_copy_n T s1 (GetAddress (m_data V)) (Size V) (GetAddress d))"
      by (rule uninitialized_copy_n_modifies) simp
    then show ?thesis using False by (auto simp add: leaves_post intro: post_weaken)
  qed
  have "post (\<lambda>_ _. True) (unchanged s) (on_throw ?X (unwind_raw d))"
    by (rule post_on_throw[OF X]) (simp add: unwind_raw_def alloc_modify_dealloc[OF h Ok])
  then show ?thesis
    unfolding CreateCopy_def using Ok
    by (auto intro!: post_then_do[where ?P1.0 = "\<lambda>_ _. True"])
next
  case (Throw e s')
  then show ?thesis
    using RawMemory_ctor_throw[OF Throw] by (simp add: CreateCopy_def)
qed (simp add: CreateCopy_def)

lemma Reserve_throw:
  assumes h: "heap_ok s" and T: "is_nothrow_move_constructible T \<or> is_copy_constructible T"
  shows "post (\<lambda>_ _. True) (unchanged s) (Reserve T s v n)"
proof (cases "vecs s v")
  case None
  then show ?thesis by (simp add: Reserve_def)
next
  case (Some V)
  show ?thesis
  proof (cases "n \<le> m_capacity (m_data V)")
    case True
    then show ?thesis using Some by (simp add: Reserve_def)
  next
    case False
    show ?thesis
      unfolding Reserve_def using Some False
      apply (simp add: Let_def)
      apply (rule post_then_do[OF CreateCopy_throw[OF h T]])
      apply (rule nothrow_post)
      apply (rule nothrow_then_do)
       apply simp_all
      done
  qed
qed

lemma leaves_modifies_from:
  "modifies A s s1 \<Longrightarrow> leaves (modifies A s1) m \<Longrightarrow> post (\<lambda>_ _. True) (modifies A s) m"
  by (cases m) (auto intro: modifies_trans)

lemma Emplace_realloc_throw:
  assumes h: "heap_ok s" and T: "is_nothrow_move_constructible T \<or> is_copy_constructible T"
    and ar: "is_nothrow_move_constructible T \<or> (\<forall>q. args \<noteq> MoveOf (At q))"
  shows "post (\<lambda>_ _. True) (unchanged s) (Emplace_realloc T s v V shift args)"
proof (cases "RawMemory_ctor T s (if m_size V = 0 then 1 else m_size V * 2)")
  case (Ok d s1)
  let ?M = "modifies {m_buffer d} s1"
  have branch: "post (\<lambda>_ _. True) ?M
     (if is_nothrow_move_constructible T \<or> \<not> is_copy_constructible T then
        then_do (uninitialized_move_n T s2 (begin_of V) shift (GetAddress d))
          (\<lambda>_ s3. uninitialized_move_n T s3 (ptr_add (begin_of V) shift)
                     (m_size V - shift) (ptr_add (GetAddress d) (shift + 1)))
      else
        on_throw
          (then_do (uninitialized_copy_n T s2 (begin_of V) shift (GetAddress d))
             (\<lambda>_ s3. uninitialized_copy_n T s3 (ptr_add (begin_of V) shift)
                        (m_size V - shift) (ptr_add (GetAddress d) (shift + 1))))
          (\<lambda>s3. destroy_n s3 (ptr_add (GetAddress d) shift) 1))"
    if s2: "?M s2 \<or> is_nothrow_move_constructible T" for s2
  proof (cases "is_nothrow_move_constructible T \<or> \<not> is_copy_constructible T")
    case True
    with T have "is_nothrow_move_constructible T" by blast
    then show ?thesis
      using True
      by (auto intro!: nothrow_post nothrow_then_do uninitialized_move_n_nothrow)
  next
    case False
    then have M: "?M s2" using s2 by blast
    have "leaves (modifies {m_buffer d} s2)
        (on_throw
          (then_do (uninitialized_copy_n T s2 (begin_of V) shift (GetAddress d))
             (\<lambda>_ s3. uninitialized_copy_n T s3 (ptr_add (begin_of V) shift)
                        (m_size V - shift) (ptr_add (GetAddress d) (shift + 1))))
          (\<lambda>s3. destroy_n s3 (ptr_add (GetAddress d) shift) 1))"
      by (intro modifies_on_throw modifies_then_do uninitialized_copy_n_modifies
          destroy_n_modifies) simp_all
    from leaves_modifies_from[OF M this] show ?thesis using False by simp
  qed
  have body: "post (\<lambda>_ _. True) ?M
      (case RawMemory_plus d shift of
                  None \<Rightarrow> Undefined
                | Some p \<Rightarrow>
                    then_do (construct_from T s1 p args)
                      (\<lambda>_ s2.
                         then_do
                           (if is_nothrow_move_constructible T \<or> \<not> is_copy_constructible T then
                              then_do (uninitialized_move_n T s2 (begin_of V) shift (GetAddress d))
                                (\<lambda>_ s3. uninitialized_move_n T s3 (ptr_add (begin_of V) shift)
                                           (m_size V - shift)
                                           (ptr_add (GetAddress d) (shift + 1)))
                            else
                              on_throw
                                (then_do (uninitialized_copy_n T s2 (begin_of V) shift (GetAddress d))
                                   (\<lambda>_ s3. uninitialized_copy_n T s3 (ptr_add (begin_of V) shift)
                                              (m_size V - shift)
                                              (ptr_add (GetAddress d) (shift + 1))))
                                (\<lambda>s3. destroy_n s3 (ptr_add (GetAddress d) shift) 1))
                           (\<lambda>_ s4. then_do (destroy_n s4 (begin_of V) (m_size V))
                                      (\<lambda>_ s5. Ok p s5))))"
  proof (cases "RawMemory_plus d shift")
    case (Some p)
    then have p: "fst p = m_buffer d" by (auto simp add: RawMemory_plus_def split: if_splits)
    have c: "post (\<lambda>_ s2. ?M s2 \<or> is_nothrow_move_constructible T) ?M
               (construct_from T s1 p args)"
    proof (cases "construct_from T s1 p args")
      case (Ok r s2)
      show ?thesis
      proof (cases "is_nothrow_move_constructible T")
        case False
        with ar have "\<forall>q. args = MoveOf (At q) \<longrightarrow> fst q \<in> {m_buffer d}" by simp
        from construct_from_modifies[OF _ this, of p s1 T] p Ok show ?thesis by simp
      qed (simp add: Ok)
    next
      case (Throw e s2)
      then show ?thesis using construct_from_throw[OF Throw] by simp
    qed simp
    show ?thesis
      using Some
      apply simp
      apply (rule post_then_do[OF c])
      apply (rule post_then_do[OF branch])
       apply assumption
      apply (rule nothrow_post)
      apply (rule nothrow_then_do)
       apply simp_all
      done
  qed simp
  have "post (\<lambda>_ _. True) (unchanged s) (on_throw
      (case RawMemory_plus d shift of
                  None \<Rightarrow> Undefined
                | Some p \<Rightarrow>
                    then_do (construct_from T s1 p args)
                      (\<lambda>_ s2.
                         then_do
                           (if is_nothrow_move_constructible T \<or> \<not> is_copy_constructible T then
                              then_do (uninitialized_move_n T s2 (begin_of V) shift (GetAddress d))
                                (\<lambda>_ s3. uninitialized_move_n T s3 (ptr_add (begin_of V) shift)
                                           (m_size V - shift)
                                           (ptr_add (GetAddress d) (shift + 1)))
                            else
                              on_throw
                                (then_do (uninitialized_copy_n T s2 (begin_of V) shift (GetAddress d))
                                   (\<lambda>_ s3. uninitialized_copy_n T s3 (ptr_add (begin_of V) shift)
                                              (m_size V - shift)
                                              (ptr_add (GetAddress d) (shift + 1))))
                                (\<lambda>s3. destroy_n s3 (ptr_add (GetAddress d) shift) 1))
                           (\<lambda>_ s4. then_do (destroy_n s4 (begin_of V) (m_size V))
                                      (\<lambda>_ s5. Ok p s5)))) (unwind_raw d))"
    by (rule post_on_throw[OF body]) (simp add: unwind_raw_def alloc_modify_dealloc[OF h Ok])
  then show ?thesis
    unfolding Emplace_realloc_def using Ok
    apply (simp split del: if_split)
    apply (erule post_then_do)
    apply (simp add: Let_def)
    done
next
  case (Throw e s')
  then show ?thesis
    using RawMemory_ctor_throw[OF Throw] by (simp add: Emplace_realloc_def)
qed (simp add: Emplace_realloc_def)

lemma unchanged_elems: "unchanged s s' \<Longrightarrow> elems s' v = elems s v"
  by (simp add: unchanged_def elems_def slots_of_def split: option.splits)

text \<open>
  C3, for the calls for which it holds. Let the element type be
  nothrow-move-constructible or copy-constructible. When \<^verbatim>\<open>Reserve\<close>, or \<^verbatim>\<open>Emplace\<close> or
  \<^verbatim>\<open>PushBack\<close> on a vector whose size equals its capacity, throws (an element
  constructor threw, or the allocation failed), the state after the exception has the
  same vectors, with the same size and capacity, and the same blocks with the same
  contents as before the call: every element has the value it had. For \<^verbatim>\<open>Emplace\<close> and
  \<^verbatim>\<open>PushBack\<close> on a type that is not nothrow-move-constructible, the new element is not
  to be move-constructed from an object in a block (an rvalue reference to an element
  of a vector).
\<close>

theorem strong_guarantee_on_growth:
  assumes "heap_ok s" and "vecs s v = Some V"
    and "is_nothrow_move_constructible T \<or> is_copy_constructible T"
    and "Reserve T s v n = Throw e s' \<or>
         (Size V = Capacity V \<and>
          (is_nothrow_move_constructible T \<or> (\<forall>q. args \<noteq> MoveOf (At q))) \<and>
            (Emplace T s v pos args = Throw e s' \<or> PushBack T s v args = Throw e s'))"
  shows "unchanged s s' \<and> vecs s' v = Some V \<and> elems s' v = elems s v"
proof -
  have E: "unchanged s s'"
    if "Size V = Capacity V" "is_nothrow_move_constructible T \<or> (\<forall>q. args \<noteq> MoveOf (At q))"
      "Emplace T s v pos' args = Throw e s'" for pos'
  proof -
    from that assms(2) have "Emplace_realloc T s v V (snd pos') args = Throw e s'"
      by (auto simp add: Emplace_def Size_def then_do_Throw_iff split: if_splits option.splits)
    with Emplace_realloc_throw[OF assms(1,3) that(2), of v V "snd pos'"] show ?thesis by simp
  qed
  have "unchanged s s'"
    using assms(4)
  proof (elim disjE conjE)
    assume "Reserve T s v n = Throw e s'"
    with Reserve_throw[OF assms(1,3), of v n] show ?thesis by simp
  next
    assume "Size V = Capacity V" "is_nothrow_move_constructible T"
      "Emplace T s v pos args = Throw e s'"
    then show ?thesis by (intro E) simp_all
  next
    assume "Size V = Capacity V" "\<forall>q. args \<noteq> MoveOf (At q)"
      "Emplace T s v pos args = Throw e s'"
    then show ?thesis by (intro E) simp_all
  next
    assume f: "Size V = Capacity V" "is_nothrow_move_constructible T"
      and "PushBack T s v args = Throw e s'"
    then have "Emplace T s v (end_of V) args = Throw e s'"
      using assms(2) by (auto simp add: PushBack_def EmplaceBack_def then_do_Throw_iff)
    with f show ?thesis by (intro E) simp_all
  next
    assume f: "Size V = Capacity V" "\<forall>q. args \<noteq> MoveOf (At q)"
      and "PushBack T s v args = Throw e s'"
    then have "Emplace T s v (end_of V) args = Throw e s'"
      using assms(2) by (auto simp add: PushBack_def EmplaceBack_def then_do_Throw_iff)
    with f show ?thesis by (intro E) simp_all
  qed
  then show ?thesis
    using assms(2) by (simp add: unchanged_elems) (simp add: unchanged_def)
qed

lemma two_vectors_heap_ok: "heap_ok two_vectors"
  by (simp add: heap_ok_def two_vectors_def)

lemma Reserve_throwing_copy:
  "map_option fst (thrown (Reserve throwing_copy_traits two_vectors 3 5)) = Some ElemThrow"
  by code_simp

lemma PushBack_throwing_copy:
  "map_option fst (thrown (PushBack throwing_copy_traits two_vectors 3 (CopyOf (At (20, 0)))))
     = Some ElemThrow"
  by code_simp

theorem strong_guarantee_on_growth_witness:
  "(\<exists>s'. Reserve throwing_copy_traits two_vectors 3 5 = Throw ElemThrow s' \<and>
         elems s' 3 = [5, 6] \<and> map_option Capacity (vecs s' 3) = Some 2) \<and>
   (\<exists>s'. PushBack throwing_copy_traits two_vectors 3 (CopyOf (At (20, 0))) = Throw ElemThrow s' \<and>
         elems s' 3 = [5, 6] \<and> map_option Capacity (vecs s' 3) = Some 2)"
proof -
  obtain s' where t: "Reserve throwing_copy_traits two_vectors 3 5 = Throw ElemThrow s'"
    using Reserve_throwing_copy
    by (cases "Reserve throwing_copy_traits two_vectors 3 5") (auto simp add: thrown_def)
  obtain s'' where
    p: "PushBack throwing_copy_traits two_vectors 3 (CopyOf (At (20, 0))) = Throw ElemThrow s''"
    using PushBack_throwing_copy
    by (cases "PushBack throwing_copy_traits two_vectors 3 (CopyOf (At (20, 0)))")
      (auto simp add: thrown_def)
  have T: "is_nothrow_move_constructible throwing_copy_traits \<or>
        is_copy_constructible throwing_copy_traits"
    by (simp add: throwing_copy_traits_def)
  have full: "Size \<lparr>m_data = \<lparr>m_buffer = 20, m_capacity = 2\<rparr>, m_size = 2\<rparr> =
              Capacity \<lparr>m_data = \<lparr>m_buffer = 20, m_capacity = 2\<rparr>, m_size = 2\<rparr>"
    by (simp add: Size_def Capacity_def)
  have ar: "is_nothrow_move_constructible throwing_copy_traits \<or>
            (\<forall>q. CopyOf (At (20, 0)) \<noteq> (MoveOf (At q) :: (nat, nat ref) ctor_args))"
    by simp
  from strong_guarantee_on_growth[OF two_vectors_heap_ok two_vectors_simps(2) T disjI1, OF t]
  have a: "elems s' 3 = [5, 6] \<and> map_option Capacity (vecs s' 3) = Some 2"
    by (simp add: two_vectors_simps Capacity_def)
  from strong_guarantee_on_growth[OF two_vectors_heap_ok two_vectors_simps(2) T disjI2,
      OF conjI[OF full conjI[OF ar disjI2[OF p]]]]
  have b: "elems s'' 3 = [5, 6] \<and> map_option Capacity (vecs s'' 3) = Some 2"
    by (simp add: two_vectors_simps Capacity_def)
  from a b t p show ?thesis by blast
qed

text \<open>
  C3 as stated fails for an element type that cannot be copied and whose move
  constructor may throw: the source then relocates by moving
  (\<^verbatim>\<open>is_nothrow_move_constructible_v<T> || !is_copy_constructible_v<T>\<close>). \<^verbatim>\<open>Reserve(5)\<close>
  on the vector \<open>[5, 6]\<close> moves the 5, throws on the 6, and leaves the vector holding
  \<open>[0, 6]\<close>. It also fails when the new element is moved from an element of the vector
  and the relocation then throws: \<^verbatim>\<open>v.PushBack(std::move(v[0]))\<close> on the full vector
  \<open>[5, 6]\<close> of a type that is relocated by copies moves the 5 into the new block, throws
  on the copy of the 6, and leaves the vector holding \<open>[0, 6]\<close>.
\<close>

theorem move_only_growth_changes_elements:
  "map_option (\<lambda>(e, s'). (e, elems s' 3)) (thrown (Reserve move_only_traits two_vectors 3 5))
     = Some (ElemThrow, [0, 6]) \<and>
   map_option (\<lambda>(e, s'). (e, elems s' 3))
     (thrown (PushBack copy_relocated_traits two_vectors 3 (MoveOf (At (20, 0)))))
     = Some (ElemThrow, [0, 6]) \<and>
   elems two_vectors 3 = [5, 6]"
  by code_simp

section \<open>What the algorithms compute\<close>

lemma with_block_simps [simp]:
  "blocks (with_block s a B) = (blocks s)(a := Some B)"
  "vecs (with_block s a B) = vecs s"
  "next_addr (with_block s a B) = next_addr s"
  "avail (with_block s a B) = avail s"
  by (simp_all add: with_block_def)

lemma with_block_twice [simp]: "with_block (with_block s a B) a B' = with_block s a B'"
  by (simp add: with_block_def)

lemma with_block_same: "blocks s a = Some B \<Longrightarrow> with_block s a B = s"
  by (simp add: with_block_def fun_upd_idem)

lemma put_slot_with_block:
  "blocks s a = Some B \<Longrightarrow> put_slot s (a, i) v = with_block s a (B[i := v])"
  by (simp add: put_slot_def with_block_def)

lemma read_at_block: "blocks s a = Some B \<Longrightarrow> i < length B \<Longrightarrow> read_at s (a, i) = B ! i"
  by (simp add: read_at_def)

lemma in_block_block: "blocks s a = Some B \<Longrightarrow> in_block s (a, i) = (i < length B)"
  by (simp add: in_block_def)

lemma uninitialized_copy_n_closed:
  assumes "blocks s a = Some A" and "blocks s d = Some D" and "a \<noteq> d"
    and "i + n \<le> length A" and "j + n \<le> length D"
    and "\<forall>k<n. A ! (i + k) \<noteq> None" and "is_copy_constructible T"
  shows "((\<forall>k<n. \<not> copy_ctor_throws T (the (A ! (i + k)))) \<longrightarrow>
            uninitialized_copy_n T s (a, i) n (d, j) =
              Ok () (with_block s d (take j D @ take n (drop i A) @ drop (j + n) D))) \<and>
         (\<forall>r s'. uninitialized_copy_n T s (a, i) n (d, j) = Ok r s' \<longrightarrow>
            s' = with_block s d (take j D @ take n (drop i A) @ drop (j + n) D))"
  using assms
proof (induction n arbitrary: s i j D)
  case 0
  then show ?case by (simp add: with_block_same)
next
  case (Suc n)
  from Suc.prems obtain x where x: "A ! i = Some x" and iA: "i < length A" and jD: "j < length D"
    using Suc.prems(6)[rule_format, of 0] by auto
  show ?case
  proof (cases "copy_ctor_throws T x")
    case True
    then have "uninitialized_copy_n T s (a, i) (Suc n) (d, j) = Throw ElemThrow s"
      using Suc.prems x iA by (simp add: copy_construct_def read_at_block)
    moreover have "\<not> (\<forall>k<Suc n. \<not> copy_ctor_throws T (the (A ! (i + k))))"
      using True x by (auto intro: exI[of _ 0])
    ultimately show ?thesis by simp
  next
    case False
    let ?D1 = "D[j := Some x]"
    let ?s1 = "with_block s d ?D1"
    have cc: "copy_construct T s (a, i) (d, j) = Ok () ?s1"
      using Suc.prems x iA jD False
      by (simp add: copy_construct_def read_at_block construct_at_def in_block_block
          put_slot_with_block)
    have IH: "((\<forall>k<n. \<not> copy_ctor_throws T (the (A ! (Suc i + k)))) \<longrightarrow>
            uninitialized_copy_n T ?s1 (a, Suc i) n (d, Suc j) =
              Ok () (with_block ?s1 d (take (Suc j) ?D1 @ take n (drop (Suc i) A) @ drop (Suc j + n) ?D1))) \<and>
         (\<forall>r s'. uninitialized_copy_n T ?s1 (a, Suc i) n (d, Suc j) = Ok r s' \<longrightarrow>
            s' = with_block ?s1 d (take (Suc j) ?D1 @ take n (drop (Suc i) A) @ drop (Suc j + n) ?D1))"
      using Suc.prems by (intro Suc.IH) auto
    have lists: "take (Suc j) ?D1 @ take n (drop (Suc i) A) @ drop (Suc j + n) ?D1 =
                 take j D @ take (Suc n) (drop i A) @ drop (j + Suc n) D"
      using x iA jD
      by (simp add: take_Suc_conv_app_nth Cons_nth_drop_Suc[symmetric])
    have all: "(\<forall>k<Suc n. \<not> copy_ctor_throws T (the (A ! (i + k)))) \<longleftrightarrow>
               (\<forall>k<n. \<not> copy_ctor_throws T (the (A ! (Suc i + k))))"
      using False x by (auto simp add: less_Suc_eq_0_disj)
    show ?thesis
      using IH cc
      unfolding all lists
      by (cases "uninitialized_copy_n T ?s1 (a, Suc i) n (d, Suc j)")
        (auto simp add: ptr_add_def then_do_Ok_iff)
  qed
qed





section \<open>Reserve\<close>

lemma on_throw_Ok_iff: "on_throw m c = Ok r s' \<longleftrightarrow> m = Ok r s'"
  by (cases m) (auto simp add: then_do_Ok_iff)

lemma vec_ok_null:
  "vec_ok s V \<Longrightarrow> m_buffer (m_data V) = 0 \<Longrightarrow> m_size V = 0 \<and> Capacity V = 0"
  by (simp add: vec_ok_def)

lemma vec_ok_block:
  assumes "vec_ok s V" and "m_buffer (m_data V) \<noteq> 0"
  shows "\<exists>A. blocks s (m_buffer (m_data V)) = Some A \<and> length A = Capacity V \<and>
             m_size V \<le> length A \<and> (\<forall>i<length A. (A ! i \<noteq> None) = (i < m_size V))"
  using assms by (auto simp add: vec_ok_def)

lemma heap_ok_fresh:
  "heap_ok s \<Longrightarrow> blocks s (next_addr s) = None \<and> next_addr s \<noteq> 0 \<and> blocks s 0 = None"
  by (simp add: heap_ok_def)

lemma slots_of_block:
  "blocks s (m_buffer (m_data V)) = Some A \<Longrightarrow> slots_of s V = take (m_size V) A"
  by (simp add: slots_of_def)

lemma slots_of_null: "heap_ok s \<Longrightarrow> m_buffer (m_data V) = 0 \<Longrightarrow> slots_of s V = []"
  by (simp add: slots_of_def heap_ok_def)

lemma length_slots_of: "length (slots_of s V) = m_size V" if "heap_ok s" "vec_ok s V"
proof (cases "m_buffer (m_data V) = 0")
  case True
  then show ?thesis using that by (simp add: slots_of_null vec_ok_null)
next
  case False
  with vec_ok_block[of s V] that show ?thesis by (auto simp add: slots_of_block)
qed

lemma elems_slots: "vecs s v = Some V \<Longrightarrow> elems s v = map the (slots_of s V)"
  by (simp add: elems_def)


lemma RawMemory_ctor_closed:
  "n \<noteq> 0 \<Longrightarrow> fits T n \<Longrightarrow> RawMemory_ctor T s n =
     (if avail s < n then Throw BadAlloc s
      else Ok \<lparr>m_buffer = next_addr s, m_capacity = n\<rparr>
             ((with_block s (next_addr s) (replicate n None))
                \<lparr>next_addr := Suc (next_addr s), avail := avail s - n\<rparr>))"
  by (simp add: RawMemory_ctor_def Allocate_def operator_new_def with_block_def fits_slots)


lemma relocate_0 [simp]: "relocate T s src 0 dst = Ok () s"
  by (simp add: relocate_def)





lemma vecs_Deallocate [simp]: "vecs (Deallocate s a) = vecs s"
  by (simp add: Deallocate_def split: option.splits)

lemma vec_ok_cong: "blocks s' (m_buffer (m_data V)) = blocks s (m_buffer (m_data V)) \<Longrightarrow>
  vec_ok s' V = vec_ok s V"
  by (simp add: vec_ok_def)

lemma vec_ok_set_vec [simp]: "vec_ok (set_vec s v W) V = vec_ok s V"
  by (rule vec_ok_cong) (simp add: set_vec_def)

lemma buffer_not_fresh:
  "heap_ok s \<Longrightarrow> vec_ok s V \<Longrightarrow> m_buffer (m_data V) \<noteq> next_addr s"
  by (cases "m_buffer (m_data V) = 0") (auto simp add: heap_ok_def vec_ok_def)




lemma two_vectors_vec_ok:
  "vec_ok two_vectors \<lparr>m_data = \<lparr>m_buffer = 10, m_capacity = 2\<rparr>, m_size = 1\<rparr>"
  "vec_ok two_vectors \<lparr>m_data = \<lparr>m_buffer = 20, m_capacity = 2\<rparr>, m_size = 2\<rparr>"
  by (auto simp add: vec_ok_def two_vectors_def Capacity_def less_Suc_eq numeral_2_eq_2)



section \<open>Erase\<close>

lemma shifted_left_step:
  assumes S: "shifted_left (B[i := Some x, Suc i := y]) (Suc i) n B'"
    and x: "B ! Suc i = Some x" and len: "Suc i < length B"
  shows "shifted_left B i (Suc n) B'"
proof -
  let ?B1 = "B[i := Some x, Suc i := y]"
  have n1: "?B1 ! j = B ! j" if "j \<noteq> i" "j \<noteq> Suc i" for j
    using that by simp
  have n2: "?B1 ! i = Some x" using len by simp
  from S have l: "length B' = length B"
    and lo: "\<And>k. k < Suc i \<Longrightarrow> B' ! k = ?B1 ! k"
    and mid: "\<And>k. Suc i \<le> k \<Longrightarrow> k < Suc i + n \<Longrightarrow> B' ! k = ?B1 ! Suc k"
    and last: "B' ! (Suc i + n) \<noteq> None"
    and hi: "\<And>k. Suc i + n < k \<Longrightarrow> k < length B \<Longrightarrow> B' ! k = ?B1 ! k"
    unfolding shifted_left_def by simp_all
  have b: "B' ! k = B ! k" if "k < i" for k
    using lo[of k] n1[of k] that by simp
  have c: "B' ! k = B ! Suc k" if "i \<le> k" "k < i + Suc n" for k
  proof (cases "k = i")
    case True
    then show ?thesis using lo[of i] n2 x by simp
  next
    case False
    then have "Suc i \<le> k" "k < Suc i + n" using that by simp_all
    from mid[OF this] n1[of "Suc k"] False that show ?thesis by simp
  qed
  have e: "B' ! k = B ! k" if "i + Suc n < k" "k < length B" for k
    using hi[of k] n1[of k] that by simp
  show ?thesis
    unfolding shifted_left_def using l b c last e by simp
qed

lemma std_move_left_closed:
  assumes "blocks s a = Some B" and "i + n < length B" and "\<forall>k\<le>n. B ! (i + k) \<noteq> None"
  shows "((\<forall>k. 1 \<le> k \<and> k \<le> n \<longrightarrow> \<not> move_assign_throws T (the (B ! (i + k)))) \<longrightarrow>
            (\<exists>B'. std_move T s (a, Suc i) n (a, i) = Ok () (with_block s a B') \<and>
                  shifted_left B i n B')) \<and>
         (\<forall>r s'. std_move T s (a, Suc i) n (a, i) = Ok r s' \<longrightarrow>
            (\<exists>B'. s' = with_block s a B' \<and> shifted_left B i n B'))"
  using assms
proof (induction n arbitrary: s i B)
  case 0
  have "shifted_left B i 0 B" using 0 by (auto simp add: shifted_left_def)
  then show ?case using 0 by (auto simp add: with_block_same intro!: exI[of _ B])
next
  case (Suc n)
  from Suc.prems(3)[rule_format, of 0] Suc.prems(3)[rule_format, of 1] Suc.prems(2)
  obtain x where live: "B ! i \<noteq> None" and x: "B ! Suc i = Some x"
    and len: "Suc i < length B" "i < length B"
    by auto
  show ?case
  proof (cases "move_assign_throws T x")
    case True
    then have "std_move T s (a, Suc i) (Suc n) (a, i) = Throw ElemThrow s"
      using Suc.prems(1) x live len by (simp add: move_assign_def read_at_block)
    moreover have "\<not> (\<forall>k. 1 \<le> k \<and> k \<le> Suc n \<longrightarrow> \<not> move_assign_throws T (the (B ! (i + k))))"
      using True x by (auto intro!: exI[of _ 1])
    ultimately show ?thesis by simp
  next
    case False
    let ?B1 = "B[i := Some x, Suc i := Some (moved_from T x)]"
    let ?s1 = "with_block s a ?B1"
    have ma: "move_assign T s (a, Suc i) (a, i) = Ok () ?s1"
      using Suc.prems(1) x live len False
      by (simp add: move_assign_def read_at_block put_slot_with_block)
    have b1: "blocks ?s1 a = Some ?B1" by simp
    have l1: "Suc i + n < length ?B1" using Suc.prems(2) by simp
    have lv1: "\<forall>k\<le>n. ?B1 ! (Suc i + k) \<noteq> None"
    proof (intro allI impI)
      fix k assume "k \<le> n"
      show "?B1 ! (Suc i + k) \<noteq> None"
      proof (cases k)
        case 0
        then show ?thesis using len by simp
      next
        case (Suc k')
        then show ?thesis
          using Suc.prems(3)[rule_format, of "Suc k"] \<open>k \<le> n\<close> by simp
      qed
    qed
    have thr: "(\<forall>k. 1 \<le> k \<and> k \<le> Suc n \<longrightarrow> \<not> move_assign_throws T (the (B ! (i + k)))) \<longleftrightarrow>
               (\<forall>k. 1 \<le> k \<and> k \<le> n \<longrightarrow> \<not> move_assign_throws T (the (?B1 ! (Suc i + k))))"
    proof
      assume L: "\<forall>k. 1 \<le> k \<and> k \<le> Suc n \<longrightarrow> \<not> move_assign_throws T (the (B ! (i + k)))"
      show "\<forall>k. 1 \<le> k \<and> k \<le> n \<longrightarrow> \<not> move_assign_throws T (the (?B1 ! (Suc i + k)))"
      proof (intro allI impI)
        fix k assume "1 \<le> k \<and> k \<le> n"
        then show "\<not> move_assign_throws T (the (?B1 ! (Suc i + k)))"
          using L[rule_format, of "Suc k"] by simp
      qed
    next
      assume R: "\<forall>k. 1 \<le> k \<and> k \<le> n \<longrightarrow> \<not> move_assign_throws T (the (?B1 ! (Suc i + k)))"
      show "\<forall>k. 1 \<le> k \<and> k \<le> Suc n \<longrightarrow> \<not> move_assign_throws T (the (B ! (i + k)))"
      proof (intro allI impI)
        fix k assume k: "1 \<le> k \<and> k \<le> Suc n"
        show "\<not> move_assign_throws T (the (B ! (i + k)))"
        proof (cases "k = 1")
          case True
          then show ?thesis using False x by simp
        next
          case False
          then obtain k' where "k = Suc k'" "1 \<le> k'" "k' \<le> n" using k by (cases k) auto
          then show ?thesis using R[rule_format, of k'] by simp
        qed
      qed
    qed
    note IH = Suc.IH[OF b1 l1 lv1]
    have step: "std_move T s (a, Suc i) (Suc n) (a, i) = std_move T ?s1 (a, Suc (Suc i)) n (a, Suc i)"
      using ma by (simp add: ptr_add_def)
    have wb: "\<And>B'. with_block ?s1 a B' = with_block s a B'" by simp
    have sh: "\<And>B'. shifted_left ?B1 (Suc i) n B' \<Longrightarrow> shifted_left B i (Suc n) B'"
      using x len(1) by (rule shifted_left_step[rotated])
    show ?thesis
      unfolding step thr using IH unfolding wb by (meson sh)
  qed
qed

lemma erase_list:
  assumes S: "shifted_left A i n B'" and len: "i + n < length A"
  shows "map the (take (i + n) B') =
           take i (map the (take (Suc (i + n)) A)) @ drop (Suc i) (map the (take (Suc (i + n)) A))"
proof (rule nth_equalityI)
  from S have l: "length B' = length A" by (simp add: shifted_left_def)
  show "length (map the (take (i + n) B')) =
        length (take i (map the (take (Suc (i + n)) A)) @ drop (Suc i) (map the (take (Suc (i + n)) A)))"
    using l len by simp
  fix k assume "k < length (map the (take (i + n) B'))"
  then have k: "k < i + n" by simp
  from S have lo: "\<And>j. j < i \<Longrightarrow> B' ! j = A ! j"
    and mid: "\<And>j. i \<le> j \<Longrightarrow> j < i + n \<Longrightarrow> B' ! j = A ! Suc j"
    unfolding shifted_left_def by simp_all
  show "map the (take (i + n) B') ! k =
        (take i (map the (take (Suc (i + n)) A)) @ drop (Suc i) (map the (take (Suc (i + n)) A))) ! k"
  proof (cases "k < i")
    case True
    then show ?thesis using k l len lo[of k] by (simp add: nth_append)
  next
    case False
    then have "i \<le> k" by simp
    moreover have "Suc i + (k - i) = Suc k" using False by simp
    ultimately show ?thesis using False k l len mid[of k] by (simp add: nth_append min_def)
  qed
qed

lemma Erase_closed:
  assumes V: "vecs s v = Some V" and ok: "vec_ok s V" and i: "i < m_size V"
  shows "((\<forall>x\<in>set (drop (Suc i) (elems s v)). \<not> move_assign_throws T x) \<longrightarrow>
            (\<exists>p s'. Erase T s v (m_buffer (m_data V), i) = Ok p s')) \<and>
         (\<forall>p s'. Erase T s v (m_buffer (m_data V), i) = Ok p s' \<longrightarrow>
            p = (m_buffer (m_data V), i) \<and>
            vecs s' v = Some (V\<lparr>m_size := m_size V - 1\<rparr>) \<and>
            elems s' v = take i (elems s v) @ drop (Suc i) (elems s v) \<and>
            (Suc i < m_size V \<longrightarrow> read_at s' p = Some (elems s v ! Suc i)))"
proof -
  let ?a = "m_buffer (m_data V)"
  define n where "n = m_size V - Suc i"
  have sz: "m_size V = Suc (i + n)" using i by (simp add: n_def)
  have a0: "?a \<noteq> 0" using vec_ok_null[OF ok] i by auto
  from vec_ok_block[OF ok a0] obtain A where
    A: "blocks s ?a = Some A" "length A = Capacity V" "m_size V \<le> length A"
       "\<forall>k<length A. (A ! k \<noteq> None) = (k < m_size V)"
    by blast
  have len: "i + n < length A" using A(3) sz by simp
  have live: "\<forall>k\<le>n. A ! (i + k) \<noteq> None" using A(3,4) sz by simp
  have el: "elems s v = map the (take (Suc (i + n)) A)"
    using V A(1) sz by (simp add: elems_def slots_of_def)
  have thr: "(\<forall>k. 1 \<le> k \<and> k \<le> n \<longrightarrow> \<not> move_assign_throws T (the (A ! (i + k)))) \<longleftrightarrow>
             (\<forall>x\<in>set (drop (Suc i) (elems s v)). \<not> move_assign_throws T x)"
  proof
    assume L: "\<forall>k. 1 \<le> k \<and> k \<le> n \<longrightarrow> \<not> move_assign_throws T (the (A ! (i + k)))"
    show "\<forall>x\<in>set (drop (Suc i) (elems s v)). \<not> move_assign_throws T x"
    proof
      fix x assume "x \<in> set (drop (Suc i) (elems s v))"
      then obtain j where j: "j < n" "x = the (A ! (Suc i + j))"
        using len by (auto simp add: el in_set_conv_nth)
      with L[rule_format, of "Suc j"] show "\<not> move_assign_throws T x" by simp
    qed
  next
    assume R: "\<forall>x\<in>set (drop (Suc i) (elems s v)). \<not> move_assign_throws T x"
    show "\<forall>k. 1 \<le> k \<and> k \<le> n \<longrightarrow> \<not> move_assign_throws T (the (A ! (i + k)))"
    proof (intro allI impI)
      fix k assume k: "1 \<le> k \<and> k \<le> n"
      then obtain j where j: "k = Suc j" "j < n" by (cases k) auto
      have "drop (Suc i) (elems s v) ! j = the (A ! (i + k))"
        using j len by (simp add: el)
      moreover have "j < length (drop (Suc i) (elems s v))" using j len by (simp add: el)
      ultimately have "the (A ! (i + k)) \<in> set (drop (Suc i) (elems s v))"
        by (metis nth_mem)
      with R show "\<not> move_assign_throws T (the (A ! (i + k)))" by blast
    qed
  qed
  note M = std_move_left_closed[OF A(1) len live, of T, unfolded thr]
  have E: "Erase T s v (?a, i) =
     then_do (std_move T s (?a, Suc i) n (?a, i))
       (\<lambda>_ s1. then_do (PopBack s1 v)
          (\<lambda>_ s2. case vecs s2 v of None \<Rightarrow> Undefined
                   | Some V2 \<Rightarrow> Ok (ptr_add (begin_of V2) i) s2))"
    using V i
    by (simp add: Erase_def ptr_add_def begin_of_def GetAddress_def n_def cong: option.case_cong)
  have rest: "then_do (PopBack (with_block s ?a B') v)
          (\<lambda>_ s2. case vecs s2 v of None \<Rightarrow> Undefined
                   | Some V2 \<Rightarrow> Ok (ptr_add (begin_of V2) i) s2) =
        Ok (?a, i) (set_vec (with_block s ?a (B'[i + n := None])) v (V\<lparr>m_size := m_size V - 1\<rparr>))"
    if S: "shifted_left A i n B'" for B'
  proof -
    from S have l: "length B' = length A" and last: "B' ! (i + n) \<noteq> None"
      by (simp_all add: shifted_left_def)
    have "destroy_at (with_block s ?a B') (?a, i + n) =
          Ok () (with_block s ?a (B'[i + n := None]))"
      using last l len by (simp add: destroy_at_def read_at_def put_slot_def with_block_def)
    then show ?thesis
      using V sz by (simp add: PopBack_def ptr_add_def GetAddress_def begin_of_def)
  qed
  have fin: "vecs s' v = Some (V\<lparr>m_size := m_size V - 1\<rparr>) \<and>
            elems s' v = take i (elems s v) @ drop (Suc i) (elems s v) \<and>
            (Suc i < m_size V \<longrightarrow> read_at s' (?a, i) = Some (elems s v ! Suc i))"
    if S: "shifted_left A i n B'"
      and s': "s' = set_vec (with_block s ?a (B'[i + n := None])) v (V\<lparr>m_size := m_size V - 1\<rparr>)"
    for B' s'
  proof -
    from S have l: "length B' = length A" by (simp add: shifted_left_def)
    have "elems s' v = map the (take (i + n) B')"
      using s' sz by (simp add: elems_def slots_of_def)
    then have e: "elems s' v = take i (elems s v) @ drop (Suc i) (elems s v)"
      using erase_list[OF S len] by (simp add: el)
    have r: "read_at s' (?a, i) = Some (elems s v ! Suc i)" if "Suc i < m_size V"
    proof -
      have "0 < n" using that sz by simp
      then have "B' ! i = A ! Suc i" using S by (simp add: shifted_left_def)
      moreover have "A ! Suc i \<noteq> None" using A(3,4) that by simp
      moreover have "elems s v ! Suc i = the (A ! Suc i)" using that sz len by (simp add: el)
      ultimately show ?thesis
        using s' l len \<open>0 < n\<close> by (auto simp add: read_at_def)
    qed
    show ?thesis using s' e r by simp
  qed
  show ?thesis
  proof (rule conjI)
    show "(\<forall>x\<in>set (drop (Suc i) (elems s v)). \<not> move_assign_throws T x) \<longrightarrow>
            (\<exists>p s'. Erase T s v (?a, i) = Ok p s')"
    proof
      assume "\<forall>x\<in>set (drop (Suc i) (elems s v)). \<not> move_assign_throws T x"
      with M obtain B' where "std_move T s (?a, Suc i) n (?a, i) = Ok () (with_block s ?a B')"
        "shifted_left A i n B'"
        by blast
      then show "\<exists>p s'. Erase T s v (?a, i) = Ok p s'"
        using rest by (simp add: E)
    qed
  next
    show "\<forall>p s'. Erase T s v (?a, i) = Ok p s' \<longrightarrow>
            p = (?a, i) \<and> vecs s' v = Some (V\<lparr>m_size := m_size V - 1\<rparr>) \<and>
            elems s' v = take i (elems s v) @ drop (Suc i) (elems s v) \<and>
            (Suc i < m_size V \<longrightarrow> read_at s' p = Some (elems s v ! Suc i))"
    proof (intro allI impI)
      fix p s' assume e: "Erase T s v (?a, i) = Ok p s'"
      then obtain r s1 where m: "std_move T s (?a, Suc i) n (?a, i) = Ok r s1"
        and k: "then_do (PopBack s1 v)
          (\<lambda>_ s2. case vecs s2 v of None \<Rightarrow> Undefined
                   | Some V2 \<Rightarrow> Ok (ptr_add (begin_of V2) i) s2) = Ok p s'"
        by (auto simp add: E then_do_Ok_iff)
      from M m obtain B' where B': "s1 = with_block s ?a B'" "shifted_left A i n B'"
        by blast
      from k rest[OF B'(2)] B'(1) have p: "p = (?a, i)"
        and s': "s' = set_vec (with_block s ?a (B'[i + n := None])) v (V\<lparr>m_size := m_size V - 1\<rparr>)"
        by simp_all
      from fin[OF B'(2) s'] p
      show "p = (?a, i) \<and> vecs s' v = Some (V\<lparr>m_size := m_size V - 1\<rparr>) \<and>
            elems s' v = take i (elems s v) @ drop (Suc i) (elems s v) \<and>
            (Suc i < m_size V \<longrightarrow> read_at s' p = Some (elems s v ! Suc i))"
        by simp
    qed
  qed
qed

text \<open>
  C8. Let \<open>pos\<close> be the position at index \<open>i\<close> of a vector in order, \<open>i\<close> below its size.
  \<^verbatim>\<open>Erase(pos)\<close> returns whenever no move assignment of an element after \<open>i\<close> throws, and
  whenever it returns: the element at index \<open>i\<close> is gone and the elements after it have
  moved one slot to the front, in order; the size is one less and the capacity is the
  same; the position returned is \<open>pos\<close>, which now holds the element that followed the
  removed one, or is the end of the vector when the last element was removed.
\<close>

theorem Erase_effect:
  assumes "vecs s v = Some V" and "vec_ok s V" and "pos = ptr_add (begin_of V) i" and "i < Size V"
  shows "((\<forall>x\<in>set (drop (Suc i) (elems s v)). \<not> move_assign_throws T x) \<longrightarrow>
            (\<exists>p s'. Erase T s v pos = Ok p s')) \<and>
         (\<forall>p s'. Erase T s v pos = Ok p s' \<longrightarrow>
            elems s' v = take i (elems s v) @ drop (Suc i) (elems s v) \<and>
            map_option Size (vecs s' v) = Some (Size V - 1) \<and>
            map_option Capacity (vecs s' v) = Some (Capacity V) \<and>
            p = pos \<and>
            (if Suc i < Size V then read_at s' p = Some (elems s v ! Suc i)
             else Some p = map_option end_of (vecs s' v)))"
proof -
  have pos: "pos = (m_buffer (m_data V), i)"
    using assms(3) by (simp add: ptr_add_def begin_of_def GetAddress_def)
  have i: "i < m_size V" using assms(4) by (simp add: Size_def)
  note E = Erase_closed[OF assms(1,2) i, of T, folded pos]
  show ?thesis
  proof (rule conjI)
    show "(\<forall>x\<in>set (drop (Suc i) (elems s v)). \<not> move_assign_throws T x) \<longrightarrow>
            (\<exists>p s'. Erase T s v pos = Ok p s')"
      using E by blast
  next
    show "\<forall>p s'. Erase T s v pos = Ok p s' \<longrightarrow>
            elems s' v = take i (elems s v) @ drop (Suc i) (elems s v) \<and>
            map_option Size (vecs s' v) = Some (Size V - 1) \<and>
            map_option Capacity (vecs s' v) = Some (Capacity V) \<and>
            p = pos \<and>
            (if Suc i < Size V then read_at s' p = Some (elems s v ! Suc i)
             else Some p = map_option end_of (vecs s' v))"
    proof (intro allI impI)
      fix p s' assume "Erase T s v pos = Ok p s'"
      with E have p: "p = pos" and v: "vecs s' v = Some (V\<lparr>m_size := m_size V - 1\<rparr>)"
        and e: "elems s' v = take i (elems s v) @ drop (Suc i) (elems s v)"
        and r: "Suc i < m_size V \<longrightarrow> read_at s' p = Some (elems s v ! Suc i)"
        by blast+
      have "Some p = map_option end_of (vecs s' v)" if "\<not> Suc i < m_size V"
        using that i p pos v by (simp add: end_of_def ptr_add_def GetAddress_def)
      then show "elems s' v = take i (elems s v) @ drop (Suc i) (elems s v) \<and>
            map_option Size (vecs s' v) = Some (Size V - 1) \<and>
            map_option Capacity (vecs s' v) = Some (Capacity V) \<and>
            p = pos \<and>
            (if Suc i < Size V then read_at s' p = Some (elems s v ! Suc i)
             else Some p = map_option end_of (vecs s' v))"
        using p v e r by (simp add: Size_def Capacity_def)
    qed
  qed
qed

theorem Erase_effect_witness:
  "\<exists>p s'. Erase number_traits two_vectors 3 (20, 0) = Ok p s' \<and> elems s' 3 = [6] \<and>
          map_option Size (vecs s' 3) = Some 1 \<and> map_option Capacity (vecs s' 3) = Some 2 \<and>
          p = (20, 0) \<and> read_at s' p = Some 6"
proof -
  have pos: "(20, 0) = ptr_add (begin_of \<lparr>m_data = \<lparr>m_buffer = 20, m_capacity = 2\<rparr>, m_size = 2\<rparr>) 0"
    by (simp add: ptr_add_def begin_of_def GetAddress_def)
  have i: "0 < Size \<lparr>m_data = \<lparr>m_buffer = 20, m_capacity = 2\<rparr>, m_size = 2\<rparr>"
    by (simp add: Size_def)
  note E = Erase_effect[OF two_vectors_simps(2) two_vectors_vec_ok(2) pos i, of number_traits]
  have "\<forall>x\<in>set (drop (Suc 0) (elems two_vectors 3)). \<not> move_assign_throws number_traits x"
    by (simp add: number_traits_def)
  with E obtain p s' where ok: "Erase number_traits two_vectors 3 (20, 0) = Ok p s'"
    by blast
  with E have "elems s' 3 = [6] \<and>
          map_option Size (vecs s' 3) = Some 1 \<and> map_option Capacity (vecs s' 3) = Some 2 \<and>
          p = (20, 0) \<and> read_at s' p = Some 6"
    by (auto simp add: two_vectors_simps Size_def Capacity_def)
  with ok show ?thesis by blast
qed

section \<open>Raw storage: the invariant and the move constructor\<close>

text \<open>
  A raw storage built by the sized constructor has capacity 0 exactly when its buffer is
  the null address; the move constructor hands the buffer and the capacity over and
  leaves the empty storage behind, and \<^verbatim>\<open>Swap\<close> exchanges the two objects, so both keep
  the invariant. Nothing is said of move assignment, which is not embedded.
\<close>

lemma RawMemory_ctor_inv:
  "0 < next_addr s \<Longrightarrow> RawMemory_ctor T s n = Ok m s' \<Longrightarrow> RawMemory_inv m"
  by (auto simp add: RawMemory_ctor_def Allocate_def operator_new_def RawMemory_inv_def
      split: if_splits)

lemma RawMemory_move_ctor_resets:
  "RawMemory_move_ctor other = (other, empty_RawMemory)"
  by (cases other) (simp add: RawMemory_move_ctor_def empty_RawMemory_def)

lemma RawMemory_move_ctor_inv:
  "RawMemory_inv other \<Longrightarrow>
     RawMemory_inv (fst (RawMemory_move_ctor other)) \<and>
     RawMemory_inv (snd (RawMemory_move_ctor other))"
  by (simp add: RawMemory_move_ctor_resets) (simp add: RawMemory_inv_def empty_RawMemory_def)

lemma RawMemory_Swap_inv:
  "RawMemory_inv x \<Longrightarrow> RawMemory_inv y \<Longrightarrow>
     RawMemory_inv (fst (RawMemory_Swap x y)) \<and> RawMemory_inv (snd (RawMemory_Swap x y))"
  by simp

section \<open>Copy construction and the independence of the copy\<close>

lemma untouched_by_op:
  assumes ok: "sized_ok s" and W: "vecs s a = Some W" and a: "a \<notin> names c"
    and buf: "m_size W = 0 \<or>
              (m_buffer (m_data W) \<notin> bufs s (names c) \<and> m_buffer (m_data W) \<noteq> 0 \<and>
               m_buffer (m_data W) < next_addr s)"
    and run: "after (run_op T s c) = Some s'"
  shows "vecs s' a = Some W \<and> elems s' a = elems s a"
proof -
  have F: "frame_rel (\<not> move_swap_or_dtor c) (bufs s (names c)) (names c) s s'"
    using run_op_frame[OF ok] run by (rule leaves_after)
  then have v: "vecs s' a = Some W" using a W by (simp add: frame_rel_def)
  have "slots_of s' W = slots_of s W"
  proof (cases "m_size W = 0")
    case True
    then show ?thesis by (simp add: slots_of_def split: option.splits)
  next
    case False
    with buf F have "blocks s' (m_buffer (m_data W)) = blocks s (m_buffer (m_data W))"
      by (simp add: frame_rel_def)
    then show ?thesis by (simp add: slots_of_def)
  qed
  then show ?thesis using v W by (simp add: elems_def)
qed

lemma uninitialized_copy_n_not_copyable:
  "\<not> is_copy_constructible T \<Longrightarrow> uninitialized_copy_n T s src (Suc n) dst = Undefined"
  by (simp add: copy_construct_def)

lemma copy_of_closed:
  assumes h: "heap_ok s" and ok: "vec_ok s W" and f: "fits T (m_size W)"
  shows "(m_size W \<le> avail s \<and> is_copy_constructible T \<and>
          (\<forall>x\<in>set (slots_of s W). \<not> copy_ctor_throws T (the x)) \<longrightarrow>
            (\<exists>C s2. copy_of T s W = Ok C s2)) \<and>
         (\<forall>C s2. copy_of T s W = Ok C s2 \<longrightarrow>
            m_size C = m_size W \<and> Capacity C = m_size W \<and>
            m_buffer (m_data C) = (if m_size W = 0 then 0 else next_addr s) \<and>
            next_addr s2 = (if m_size W = 0 then next_addr s else Suc (next_addr s)) \<and>
            vecs s2 = vecs s \<and> slots_of s2 C = slots_of s W \<and>
            (\<forall>a. a \<noteq> next_addr s \<longrightarrow> blocks s2 a = blocks s a))"
proof (cases "m_size W = 0")
  case True
  have "copy_of T s W = Ok \<lparr>m_data = \<lparr>m_buffer = 0, m_capacity = 0\<rparr>, m_size = 0\<rparr> s"
    using True by (simp add: copy_of_def)
  then show ?thesis
    using True h by (auto simp add: Capacity_def slots_of_def split: option.splits)
next
  case False
  let ?a = "m_buffer (m_data W)"
  let ?n = "m_size W"
  let ?d = "\<lparr>m_buffer = next_addr s, m_capacity = ?n\<rparr>"
  define s1 where "s1 = (with_block s (next_addr s) (replicate ?n None))
                \<lparr>next_addr := Suc (next_addr s), avail := avail s - ?n\<rparr>"
  have a0: "?a \<noteq> 0" using vec_ok_null[OF ok] False by auto
  from vec_ok_block[OF ok a0] obtain A where
    A: "blocks s ?a = Some A" "length A = Capacity W" "?n \<le> length A"
       "\<forall>i<length A. (A ! i \<noteq> None) = (i < ?n)"
    by blast
  have ad: "?a \<noteq> next_addr s" using h ok by (rule buffer_not_fresh)
  have b1: "blocks s1 ?a = Some A" "blocks s1 (next_addr s) = Some (replicate ?n None)"
    using A(1) ad by (simp_all add: s1_def)
  have cc: "copy_of T s W =
      (if avail s < ?n then Throw BadAlloc s
       else then_do (on_throw (uninitialized_copy_n T s1 (?a, 0) ?n (next_addr s, 0))
                       (unwind_raw ?d))
              (\<lambda>_ s2. Ok \<lparr>m_data = ?d, m_size = ?n\<rparr> s2))"
    unfolding copy_of_def RawMemory_ctor_closed[OF False f] s1_def
    by (simp add: GetAddress_def)
  have D': "take 0 (replicate ?n None) @ take ?n (drop 0 A) @ drop (0 + ?n) (replicate ?n None)
        = slots_of s W"
    by (simp add: slots_of_block[OF A(1)])
  have live: "\<forall>k<?n. A ! (0 + k) \<noteq> None" using A(3,4) by simp
  have p1: "0 + ?n \<le> length A" using A(3) by simp
  have p2: "0 + ?n \<le> length (replicate ?n (None :: 'a option))" by simp
  have thr: "(\<forall>k<?n. \<not> copy_ctor_throws T (the (A ! (0 + k)))) \<longleftrightarrow>
             (\<forall>x\<in>set (slots_of s W). \<not> copy_ctor_throws T (the x))"
    by (auto simp add: slots_of_block[OF A(1)] nth_image[OF A(3), symmetric])
  have post: "vecs s2 = vecs s \<and> slots_of s2 \<lparr>m_data = ?d, m_size = ?n\<rparr> = slots_of s W \<and>
      next_addr s2 = Suc (next_addr s) \<and> (\<forall>a. a \<noteq> next_addr s \<longrightarrow> blocks s2 a = blocks s a)"
    if "s2 = with_block s1 (next_addr s) (slots_of s W)" for s2
    using that length_slots_of[OF h ok] by (simp add: s1_def slots_of_def)
  show ?thesis
  proof (rule conjI)
    show "m_size W \<le> avail s \<and> is_copy_constructible T \<and>
          (\<forall>x\<in>set (slots_of s W). \<not> copy_ctor_throws T (the x)) \<longrightarrow>
            (\<exists>C s2. copy_of T s W = Ok C s2)"
    proof
      assume a: "m_size W \<le> avail s \<and> is_copy_constructible T \<and>
          (\<forall>x\<in>set (slots_of s W). \<not> copy_ctor_throws T (the x))"
      then have c: "is_copy_constructible T" by simp
      note C = uninitialized_copy_n_closed[OF b1 ad p1 p2 live c, unfolded D' thr]
      with a have "uninitialized_copy_n T s1 (?a, 0) ?n (next_addr s, 0) =
          Ok () (with_block s1 (next_addr s) (slots_of s W))"
        by blast
      then show "\<exists>C s2. copy_of T s W = Ok C s2" using a by (simp add: cc)
    qed
  next
    show "\<forall>C s2. copy_of T s W = Ok C s2 \<longrightarrow>
            m_size C = m_size W \<and> Capacity C = m_size W \<and>
            m_buffer (m_data C) = (if m_size W = 0 then 0 else next_addr s) \<and>
            next_addr s2 = (if m_size W = 0 then next_addr s else Suc (next_addr s)) \<and>
            vecs s2 = vecs s \<and> slots_of s2 C = slots_of s W \<and>
            (\<forall>a. a \<noteq> next_addr s \<longrightarrow> blocks s2 a = blocks s a)"
    proof (intro allI impI)
      fix C s2 assume "copy_of T s W = Ok C s2"
      then have u: "uninitialized_copy_n T s1 (?a, 0) ?n (next_addr s, 0) = Ok () s2"
        and C: "C = \<lparr>m_data = ?d, m_size = ?n\<rparr>"
        by (auto simp add: cc then_do_Ok_iff on_throw_Ok_iff split: if_splits)
      have c: "is_copy_constructible T"
      proof (rule ccontr)
        assume "\<not> is_copy_constructible T"
        moreover obtain m where "?n = Suc m" using False by (cases ?n) auto
        ultimately show False
          using u uninitialized_copy_n_not_copyable[of T s1 "(?a, 0)" m "(next_addr s, 0)"]
          by simp
      qed
      note Cl = uninitialized_copy_n_closed[OF b1 ad p1 p2 live c, unfolded D' thr]
      with u have "s2 = with_block s1 (next_addr s) (slots_of s W)" by blast
      from post[OF this] C False
      show "m_size C = m_size W \<and> Capacity C = m_size W \<and>
            m_buffer (m_data C) = (if m_size W = 0 then 0 else next_addr s) \<and>
            next_addr s2 = (if m_size W = 0 then next_addr s else Suc (next_addr s)) \<and>
            vecs s2 = vecs s \<and> slots_of s2 C = slots_of s W \<and>
            (\<forall>a. a \<noteq> next_addr s \<longrightarrow> blocks s2 a = blocks s a)"
        by (simp add: Capacity_def)
    qed
  qed
qed

lemma buffer_below:
  "heap_ok s \<Longrightarrow> vec_ok s V \<Longrightarrow> m_buffer (m_data V) \<noteq> 0 \<Longrightarrow>
     m_buffer (m_data V) < next_addr s"
proof (rule ccontr)
  assume h: "heap_ok s" and ok: "vec_ok s V" and nz: "m_buffer (m_data V) \<noteq> 0"
    and n: "\<not> m_buffer (m_data V) < next_addr s"
  from vec_ok_block[OF ok nz] obtain A where A: "blocks s (m_buffer (m_data V)) = Some A"
    by blast
  from n have "next_addr s \<le> m_buffer (m_data V)" by simp
  with h have "blocks s (m_buffer (m_data V)) = None" unfolding heap_ok_def by blast
  with A show False by simp
qed

lemma slots_of_set_vec [simp]: "slots_of (set_vec s v X) V = slots_of s V"
  by (simp add: slots_of_def)

lemma Vector_copy_closed:
  assumes wf: "wf T s" and W: "vecs s a = Some W" and b: "vecs s b = None"
  shows "(m_size W \<le> avail s \<and> is_copy_constructible T \<and>
          (\<forall>x\<in>set (elems s a). \<not> copy_ctor_throws T x) \<longrightarrow>
            (\<exists>s'. Vector_copy T s b a = Ok () s')) \<and>
         (\<forall>s'. Vector_copy T s b a = Ok () s' \<longrightarrow>
            (\<exists>C. vecs s' = (vecs s)(b := Some C) \<and> m_size C = m_size W \<and> Capacity C = m_size W \<and>
                 m_buffer (m_data C) = (if m_size W = 0 then 0 else next_addr s) \<and>
                 next_addr s' = (if m_size W = 0 then next_addr s else Suc (next_addr s)) \<and>
                 slots_of s' C = slots_of s W \<and> slots_of s' W = slots_of s W))"
proof -
  have h: "heap_ok s" and ok: "vec_ok s W" and fc: "fits T (Capacity W)"
    using wf W by (auto simp add: wf_def)
  have "m_size W \<le> Capacity W" using ok by (simp add: vec_ok_def)
  then have "m_size W * sizeof T \<le> Capacity W * sizeof T" by simp
  moreover have "0 < sizeof T" "Capacity W * sizeof T < 2 ^ 64" using fc by (simp_all add: fits_def)
  ultimately have f: "fits T (m_size W)" unfolding fits_def by linarith
  note C = copy_of_closed[OF h ok f]
  have vc: "Vector_copy T s b a = then_do (copy_of T s W) (\<lambda>V s1. Ok () (set_vec s1 b V))"
    using W b by (simp add: Vector_copy_def)
  have ne: "m_buffer (m_data W) \<noteq> next_addr s" using h ok by (rule buffer_not_fresh)
  show ?thesis
  proof (rule conjI)
    show "m_size W \<le> avail s \<and> is_copy_constructible T \<and>
          (\<forall>x\<in>set (elems s a). \<not> copy_ctor_throws T x) \<longrightarrow>
            (\<exists>s'. Vector_copy T s b a = Ok () s')"
    proof
      assume a: "m_size W \<le> avail s \<and> is_copy_constructible T \<and>
          (\<forall>x\<in>set (elems s a). \<not> copy_ctor_throws T x)"
      then have "\<forall>x\<in>set (slots_of s W). \<not> copy_ctor_throws T (the x)"
        using W by (simp add: elems_def)
      with C a obtain V s2 where "copy_of T s W = Ok V s2" by blast
      then show "\<exists>s'. Vector_copy T s b a = Ok () s'" by (simp add: vc)
    qed
  next
    show "\<forall>s'. Vector_copy T s b a = Ok () s' \<longrightarrow>
            (\<exists>C. vecs s' = (vecs s)(b := Some C) \<and> m_size C = m_size W \<and> Capacity C = m_size W \<and>
                 m_buffer (m_data C) = (if m_size W = 0 then 0 else next_addr s) \<and>
                 next_addr s' = (if m_size W = 0 then next_addr s else Suc (next_addr s)) \<and>
                 slots_of s' C = slots_of s W \<and> slots_of s' W = slots_of s W)"
    proof (intro allI impI)
      fix s' assume "Vector_copy T s b a = Ok () s'"
      then obtain V s2 where c: "copy_of T s W = Ok V s2" and s': "s' = set_vec s2 b V"
        by (auto simp add: vc then_do_Ok_iff)
      from C c have f: "m_size V = m_size W" "Capacity V = m_size W"
        "m_buffer (m_data V) = (if m_size W = 0 then 0 else next_addr s)"
        "next_addr s2 = (if m_size W = 0 then next_addr s else Suc (next_addr s))"
        "vecs s2 = vecs s" "slots_of s2 V = slots_of s W"
        "\<forall>a. a \<noteq> next_addr s \<longrightarrow> blocks s2 a = blocks s a"
        by blast+
      have "slots_of s2 W = slots_of s W" using f(7) ne by (simp add: slots_of_def)
      then show "\<exists>C. vecs s' = (vecs s)(b := Some C) \<and> m_size C = m_size W \<and> Capacity C = m_size W \<and>
                 m_buffer (m_data C) = (if m_size W = 0 then 0 else next_addr s) \<and>
                 next_addr s' = (if m_size W = 0 then next_addr s else Suc (next_addr s)) \<and>
                 slots_of s' C = slots_of s W \<and> slots_of s' W = slots_of s W"
        using f s' by (intro exI[of _ V]) simp
    qed
  qed
qed

text \<open>
  C9. Let \<open>a\<close> be a vector of a state in order and \<open>b\<close> a new name. Copy construction of
  \<open>b\<close> from \<open>a\<close> returns whenever the allocator can provide the storage and no element
  copy throws, and whenever it returns: \<open>b\<close> has the size of \<open>a\<close>, a capacity equal to
  that size, and the element values of \<open>a\<close> in order, and \<open>a\<close> is as it was. After it,
  whatever a public operation that does not name \<open>a\<close> does (to \<open>b\<close> or to any other
  vector, returning or throwing) leaves the size, the capacity and the elements of \<open>a\<close>
  as they were, and an operation that does not name \<open>b\<close> leaves \<open>b\<close> as it was.
\<close>

theorem copy_is_independent:
  assumes "wf T s" and "vecs s a = Some W" and "vecs s b = None"
  shows "(Size W \<le> avail s \<and> is_copy_constructible T \<and>
          (\<forall>x\<in>set (elems s a). \<not> copy_ctor_throws T x) \<longrightarrow>
            (\<exists>s'. Vector_copy T s b a = Ok () s')) \<and>
         (\<forall>s'. Vector_copy T s b a = Ok () s' \<longrightarrow>
            map_option Size (vecs s' b) = Some (Size W) \<and>
            map_option Capacity (vecs s' b) = Some (Size W) \<and>
            elems s' b = elems s a \<and>
            vecs s' a = Some W \<and> elems s' a = elems s a \<and>
            (\<forall>c s''. after (run_op T s' c) = Some s'' \<longrightarrow>
               (a \<notin> names c \<longrightarrow> vecs s'' a = vecs s' a \<and> elems s'' a = elems s' a) \<and>
               (b \<notin> names c \<longrightarrow> vecs s'' b = vecs s' b \<and> elems s'' b = elems s' b)))"
proof (rule conjI)
  note VC = Vector_copy_closed[OF assms]
  show "Size W \<le> avail s \<and> is_copy_constructible T \<and>
          (\<forall>x\<in>set (elems s a). \<not> copy_ctor_throws T x) \<longrightarrow>
            (\<exists>s'. Vector_copy T s b a = Ok () s')"
    using VC by (simp add: Size_def)
  show "\<forall>s'. Vector_copy T s b a = Ok () s' \<longrightarrow>
            map_option Size (vecs s' b) = Some (Size W) \<and>
            map_option Capacity (vecs s' b) = Some (Size W) \<and>
            elems s' b = elems s a \<and>
            vecs s' a = Some W \<and> elems s' a = elems s a \<and>
            (\<forall>c s''. after (run_op T s' c) = Some s'' \<longrightarrow>
               (a \<notin> names c \<longrightarrow> vecs s'' a = vecs s' a \<and> elems s'' a = elems s' a) \<and>
               (b \<notin> names c \<longrightarrow> vecs s'' b = vecs s' b \<and> elems s'' b = elems s' b))"
  proof (intro allI impI)
    fix s' assume "Vector_copy T s b a = Ok () s'"
    with VC obtain C where C: "vecs s' = (vecs s)(b := Some C)" "m_size C = m_size W"
      "Capacity C = m_size W" "m_buffer (m_data C) = (if m_size W = 0 then 0 else next_addr s)"
      "next_addr s' = (if m_size W = 0 then next_addr s else Suc (next_addr s))"
      "slots_of s' C = slots_of s W" "slots_of s' W = slots_of s W"
      by blast
    have h: "heap_ok s" and oks: "\<And>v V. vecs s v = Some V \<Longrightarrow> vec_ok s V"
      and dis: "\<And>v w V X. vecs s v = Some V \<Longrightarrow> vecs s w = Some X \<Longrightarrow> v \<noteq> w \<Longrightarrow>
                 m_buffer (m_data V) \<noteq> 0 \<Longrightarrow> m_buffer (m_data V) \<noteq> m_buffer (m_data X)"
      using assms(1) unfolding wf_def by blast+
    have ab: "a \<noteq> b" using assms(2,3) by auto
    have va: "vecs s' a = Some W" and vb: "vecs s' b = Some C" using C(1) ab assms(2) by simp_all
    have ea: "elems s' a = elems s a" using va assms(2) C(7) by (simp add: elems_def)
    have eb: "elems s' b = elems s a" using vb assms(2) C(6) by (simp add: elems_def)
    have sok: "sized_ok s'"
      unfolding sized_ok_def
    proof (intro allI impI)
      fix w V assume "vecs s' w = Some V"
      then have "V = C \<or> vecs s w = Some V" using C(1) by (auto split: if_splits)
      then show "m_size V \<le> Capacity V"
        using C(2,3) oks[of w V] by (auto simp add: vec_ok_def)
    qed
    have okW: "vec_ok s W" using assms(2) by (rule oks)
    have indep: "(a \<notin> names c \<longrightarrow> vecs s'' a = vecs s' a \<and> elems s'' a = elems s' a) \<and>
                 (b \<notin> names c \<longrightarrow> vecs s'' b = vecs s' b \<and> elems s'' b = elems s' b)"
      if run: "after (run_op T s' c) = Some s''" for c s''
    proof (intro conjI impI)
      assume na: "a \<notin> names c"
      have "m_size W = 0 \<or>
              (m_buffer (m_data W) \<notin> bufs s' (names c) \<and> m_buffer (m_data W) \<noteq> 0 \<and>
               m_buffer (m_data W) < next_addr s')"
      proof (cases "m_size W = 0")
        case False
        then have nz: "m_buffer (m_data W) \<noteq> 0" using vec_ok_null[OF okW] by auto
        then have lt: "m_buffer (m_data W) < next_addr s" using h okW by (intro buffer_below)
        have "m_buffer (m_data W) \<notin> bufs s' (names c)"
        proof
          assume "m_buffer (m_data W) \<in> bufs s' (names c)"
          then obtain w X where w: "w \<in> names c" "vecs s' w = Some X"
            "m_buffer (m_data X) = m_buffer (m_data W)"
            by (auto simp add: bufs_def)
          show False
          proof (cases "w = b")
            case True
            then have "X = C" using w(2) vb by simp
            then show False using w(3) C(4) False lt by simp
          next
            case wb: False
            then have X: "vecs s w = Some X" using w(2) C(1) by simp
            have aw: "a \<noteq> w" using w(1) na by auto
            from dis[OF assms(2) X aw nz] w(3) show False by simp
          qed
        qed
        then show ?thesis using nz lt C(5) False by simp
      qed simp
      from untouched_by_op[OF sok va na this run]
      show "vecs s'' a = vecs s' a" and "elems s'' a = elems s' a"
        using va by simp_all
    next
      assume nb: "b \<notin> names c"
      have "m_size C = 0 \<or>
              (m_buffer (m_data C) \<notin> bufs s' (names c) \<and> m_buffer (m_data C) \<noteq> 0 \<and>
               m_buffer (m_data C) < next_addr s')"
      proof (cases "m_size C = 0")
        case False
        then have sz: "m_size W \<noteq> 0" using C(2) by simp
        then have bc: "m_buffer (m_data C) = next_addr s" and n': "next_addr s' = Suc (next_addr s)"
          using C(4,5) by simp_all
        have nz: "next_addr s \<noteq> 0" using h by (simp add: heap_ok_def)
        have "m_buffer (m_data C) \<notin> bufs s' (names c)"
        proof
          assume "m_buffer (m_data C) \<in> bufs s' (names c)"
          then obtain w X where w: "w \<in> names c" "vecs s' w = Some X"
            "m_buffer (m_data X) = m_buffer (m_data C)"
            by (auto simp add: bufs_def)
          have "w \<noteq> b" using w(1) nb by auto
          then have X: "vecs s w = Some X" using w(2) C(1) by simp
          from buffer_not_fresh[OF h oks[OF X]] w(3) bc show False by simp
        qed
        then show ?thesis using bc n' nz by simp
      qed simp
      from untouched_by_op[OF sok vb nb this run]
      show "vecs s'' b = vecs s' b" and "elems s'' b = elems s' b"
        using vb by simp_all
    qed
    show "map_option Size (vecs s' b) = Some (Size W) \<and>
            map_option Capacity (vecs s' b) = Some (Size W) \<and>
            elems s' b = elems s a \<and>
            vecs s' a = Some W \<and> elems s' a = elems s a \<and>
            (\<forall>c s''. after (run_op T s' c) = Some s'' \<longrightarrow>
               (a \<notin> names c \<longrightarrow> vecs s'' a = vecs s' a \<and> elems s'' a = elems s' a) \<and>
               (b \<notin> names c \<longrightarrow> vecs s'' b = vecs s' b \<and> elems s'' b = elems s' b))"
      using vb va ea eb C(2,3) indep by (simp add: Size_def)
  qed
qed

lemma two_vectors_wf: "wf number_traits two_vectors"
  unfolding wf_def
proof (intro conjI allI impI)
  show "heap_ok two_vectors" by (rule two_vectors_heap_ok)
next
  fix v V assume "vecs two_vectors v = Some V"
  then show "vec_ok two_vectors V"
    using two_vectors_vec_ok by (auto simp add: two_vectors_def split: if_splits)
next
  fix v V assume "vecs two_vectors v = Some V"
  then show "fits number_traits (Capacity V)"
    by (auto simp add: two_vectors_def fits_def number_traits_def Capacity_def split: if_splits)
next
  fix v w V W
  assume "vecs two_vectors v = Some V \<and> vecs two_vectors w = Some W \<and> v \<noteq> w \<and>
          m_buffer (m_data V) \<noteq> 0"
  then show "m_buffer (m_data V) \<noteq> m_buffer (m_data W)"
    by (auto simp add: two_vectors_def split: if_splits)
qed

lemma two_vectors_copy_push:
  "map_option (\<lambda>s. elems s 4)
     (run_ops number_traits two_vectors [OpCopy 4 3, OpPushBack 4 (CopyOf (Val 9))]) = Some [5, 6, 9]"
  by code_simp

lemma two_vectors_copy_assign_at:
  "map_option (\<lambda>s. elems s 3)
     (run_ops number_traits two_vectors [OpCopy 4 3, OpAssignAt 3 0 9]) = Some [9, 6]"
  by code_simp

theorem copy_is_independent_witness:
  "\<exists>s'. Vector_copy number_traits two_vectors 4 3 = Ok () s' \<and>
     map_option Size (vecs s' 4) = Some 2 \<and> map_option Capacity (vecs s' 4) = Some 2 \<and>
     elems s' 4 = [5, 6] \<and> elems s' 3 = [5, 6] \<and>
     (\<exists>s''. after (run_op number_traits s' (OpPushBack 4 (CopyOf (Val 9)))) = Some s'' \<and>
        elems s'' 4 = [5, 6, 9] \<and> elems s'' 3 = [5, 6]) \<and>
     (\<exists>s''. after (run_op number_traits s' (OpAssignAt 3 0 9)) = Some s'' \<and>
        elems s'' 3 = [9, 6] \<and> elems s'' 4 = [5, 6])"
proof -
  note I = copy_is_independent[OF two_vectors_wf two_vectors_simps(2) two_vectors_simps(3)]
  have "Size \<lparr>m_data = \<lparr>m_buffer = 20, m_capacity = 2\<rparr>, m_size = 2\<rparr> \<le> avail two_vectors \<and>
        is_copy_constructible number_traits \<and>
        (\<forall>x\<in>set (elems two_vectors 3). \<not> copy_ctor_throws number_traits x)"
    by (simp add: Size_def two_vectors_def number_traits_def)
  with I obtain s' where ok: "Vector_copy number_traits two_vectors 4 3 = Ok () s'"
    by blast
  with I have f: "map_option Size (vecs s' 4) = Some 2" "map_option Capacity (vecs s' 4) = Some 2"
    "elems s' 4 = [5, 6]" "elems s' 3 = [5, 6]"
    and ind: "\<And>c s''. after (run_op number_traits s' c) = Some s'' \<Longrightarrow>
               (3 \<notin> names c \<longrightarrow> elems s'' 3 = elems s' 3) \<and>
               (4 \<notin> names c \<longrightarrow> elems s'' 4 = elems s' 4)"
    by (simp_all add: Size_def two_vectors_simps)
  from two_vectors_copy_push ok obtain s1 where
    s1: "after (run_op number_traits s' (OpPushBack 4 (CopyOf (Val 9)))) = Some s1" "elems s1 4 = [5, 6, 9]"
    by (auto simp add: after_def split: option.splits)
  from two_vectors_copy_assign_at ok obtain s2 where
    s2: "after (run_op number_traits s' (OpAssignAt 3 0 9)) = Some s2" "elems s2 3 = [9, 6]"
    by (auto simp add: after_def split: option.splits)
  from ind[OF s1(1)] f have "elems s1 3 = [5, 6]" by simp
  moreover from ind[OF s2(1)] f have "elems s2 4 = [5, 6]" by simp
  ultimately show ?thesis using ok f s1 s2 by blast
qed

section \<open>Insertion without reallocation\<close>

text \<open>
  C1. An insertion at index \<open>i\<close> is to shift the elements at indices \<open>\<ge> i\<close> one slot to the
  back, place the new element at \<open>i\<close> and keep the values of the others. On the path taken
  when \<open>size < capacity\<close> the source first move-constructs the last element into the slot
  \<open>size\<close> and then runs \<^verbatim>\<open>std::move_backward(begin() + shift, end(), end() + 1)\<close>, whose
  range still contains the last element, now moved-from: it is assigned over the slot
  \<open>size\<close>. For strings, which a move leaves empty, the value of the last element is lost:
  inserting \<open>x\<close> at index 1 or at index 0 of the vector \<open>[a, b, c]\<close> of capacity 4 returns
  with \<open>[a, x, b, empty]\<close> and \<open>[x, a, b, empty]\<close>. With the position at the end the range
  is empty and \<^verbatim>\<open>std::destroy_at(begin() + shift)\<close> destroys the object just moved to the
  slot \<open>size\<close>: \<^verbatim>\<open>PushBack\<close> of \<open>x\<close> returns with \<open>[a, b, empty, x]\<close>. The same happens in a
  program that only appends: four appends to an empty vector of strings (capacities 1, 2,
  4, and the fourth in place) leave \<open>[a, b, empty, d]\<close>. On the same path the argument,
  a reference, is read after the shift: on the vector \<open>[1, 2, 3]\<close> of numbers with capacity
  4, \<^verbatim>\<open>v.Insert(v.begin(), v[2])\<close> returns with \<open>[2, 1, 2, 3]\<close>, the new element being a
  copy of what the shift has put into the slot 2, not of the 3 the caller passed.
\<close>

theorem Emplace_in_place_drops_last_element:
  "elems three_strings 2 = [''a'', ''b'', ''c''] \<and>
   map_option Capacity (vecs three_strings 2) = Some 4 \<and>
   map_option (\<lambda>(p, s). (p, elems s 2, map_option Size (vecs s 2)))
     (returned (Emplace string_traits three_strings 2 (10, 1) (CopyOf (Obj ''x'')))) =
     Some ((10, 1), [''a'', ''x'', ''b'', ''''], Some 4) \<and>
   map_option (\<lambda>(p, s). (p, elems s 2, map_option Size (vecs s 2)))
     (returned (Insert_move string_traits three_strings 2 (10, 0) (Obj ''x''))) =
     Some ((10, 0), [''x'', ''a'', ''b'', ''''], Some 4) \<and>
   map_option (\<lambda>(r, s). elems s 2)
     (returned (PushBack string_traits three_strings 2 (CopyOf (Obj ''x'')))) =
     Some [''a'', ''b'', '''', ''x''] \<and>
   map_option (\<lambda>s. (elems s 2, map_option Capacity (vecs s 2)))
     (run_ops string_traits (initial 100)
        [OpDefault 2, OpPushBack 2 (CopyOf (Val ''a'')), OpPushBack 2 (CopyOf (Val ''b'')),
         OpPushBack 2 (CopyOf (Val ''c''))]) = Some ([''a'', ''b'', ''c''], Some 4) \<and>
   map_option (\<lambda>s. (elems s 2, map_option Capacity (vecs s 2)))
     (run_ops string_traits (initial 100)
        [OpDefault 2, OpPushBack 2 (CopyOf (Val ''a'')), OpPushBack 2 (CopyOf (Val ''b'')),
         OpPushBack 2 (CopyOf (Val ''c'')), OpPushBack 2 (CopyOf (Val ''d''))]) =
     Some ([''a'', ''b'', '''', ''d''], Some 4) \<and>
   map_option (\<lambda>s. (elems s 2, map_option Capacity (vecs s 2)))
     (run_ops number_traits (initial 100)
        [OpDefault 2, OpPushBack 2 (CopyOf (Val 1)), OpPushBack 2 (CopyOf (Val 2)),
         OpPushBack 2 (CopyOf (Val 3))]) = Some ([1, 2, 3], Some 4) \<and>
   map_option (\<lambda>s. (elems s 2, map_option Capacity (vecs s 2)))
     (run_ops number_traits (initial 100)
        [OpDefault 2, OpPushBack 2 (CopyOf (Val 1)), OpPushBack 2 (CopyOf (Val 2)),
         OpPushBack 2 (CopyOf (Val 3)), OpInsertCopy 2 (3, 0) (Elem 2 2)]) =
     Some ([2, 1, 2, 3], Some 4)"
  by code_simp

section \<open>Moves and self-assignment\<close>

lemma Swap_distinct:
  assumes "vecs s a = Some VA" "vecs s b = Some VB" "a \<noteq> b"
  shows "Swap s b a = Ok () (s\<lparr>vecs := (vecs s)(b := Some VA, a := Some VB)\<rparr>)"
  using assms by (simp add: Swap_def set_vec_def Let_def)

text \<open>
  C2, as far as it holds. Move construction of a new vector \<open>b\<close> from \<open>a\<close> gives \<open>b\<close>
  the elements of \<open>a\<close> in order and leaves \<open>a\<close> empty, with size 0. Move assignment
  \<open>b = std::move(a)\<close> between two different vectors gives \<open>b\<close> the elements of \<open>a\<close> and
  leaves \<open>a\<close> with the elements and the size \<open>b\<close> had: the two are swapped.
\<close>

theorem move_transfers:
  "(vecs s a = Some VA \<and> vecs s b = None \<longrightarrow>
      (\<exists>s'. Vector_move s b a = Ok () s' \<and> elems s' b = elems s a \<and>
            vecs s' a = Some empty_Vector \<and> elems s' a = [])) \<and>
   (vecs s a = Some VA \<and> vecs s b = Some VB \<and> a \<noteq> b \<longrightarrow>
      (\<exists>s'. Vector_move_assign s b a = Ok () s' \<and> elems s' b = elems s a \<and>
            vecs s' a = Some VB \<and> elems s' a = elems s b))"
proof (intro conjI impI)
  assume h: "vecs s a = Some VA \<and> vecs s b = None"
  then have ne: "a \<noteq> b" by auto
  let ?s0 = "set_vec s b empty_Vector"
  have "Swap ?s0 b a = Ok () (?s0\<lparr>vecs := (vecs ?s0)(b := Some VA, a := Some empty_Vector)\<rparr>)"
    using h ne by (intro Swap_distinct) (auto simp add: set_vec_def)
  then show "\<exists>s'. Vector_move s b a = Ok () s' \<and> elems s' b = elems s a \<and>
            vecs s' a = Some empty_Vector \<and> elems s' a = []"
    using h ne
    by (simp add: Vector_move_def elems_vecs_upd set_vec_def elems_def slots_of_def
        empty_Vector_def split: option.splits)
next
  assume h: "vecs s a = Some VA \<and> vecs s b = Some VB \<and> a \<noteq> b"
  then have "Swap s b a = Ok () (s\<lparr>vecs := (vecs s)(b := Some VA, a := Some VB)\<rparr>)"
    by (intro Swap_distinct) auto
  then show "\<exists>s'. Vector_move_assign s b a = Ok () s' \<and> elems s' b = elems s a \<and>
            vecs s' a = Some VB \<and> elems s' a = elems s b"
    using h by (simp add: Vector_move_assign_def elems_vecs_upd elems_def)
qed

theorem move_transfers_witness:
  "(\<exists>s'. Vector_move two_vectors 4 3 = Ok () s' \<and> elems s' 4 = [5, 6] \<and> elems s' 3 = []) \<and>
   (\<exists>s'. Vector_move_assign two_vectors 2 3 = Ok () s' \<and> elems s' 2 = [5, 6] \<and> elems s' 3 = [7])"
  using move_transfers[of two_vectors 3 "\<lparr>m_data = \<lparr>m_buffer = 20, m_capacity = 2\<rparr>, m_size = 2\<rparr>" 4
      "undefined"]
    move_transfers[of two_vectors 3 "\<lparr>m_data = \<lparr>m_buffer = 20, m_capacity = 2\<rparr>, m_size = 2\<rparr>" 2
      "\<lparr>m_data = \<lparr>m_buffer = 10, m_capacity = 2\<rparr>, m_size = 1\<rparr>"]
  by (auto simp add: two_vectors_simps)

text \<open>
  C2 as stated fails for move assignment into a vector that is not empty: after
  \<open>2 = std::move(3)\<close> on the two vectors above, vector 2 holds \<open>[5, 6]\<close> and the
  moved-from vector 3 has size 1, not 0.
\<close>

theorem move_assign_source_keeps_size:
  "map_option (\<lambda>s'. (elems s' 2, map_option Size (vecs s' 3)))
     (after (Vector_move_assign two_vectors 2 3)) = Some ([5, 6], Some 1)"
  by (simp add: Vector_move_assign_def Swap_def two_vectors_def after_def set_vec_def
      elems_def slots_of_def Size_def)

text \<open>
  C10. Assigning a vector to itself, by copy or by move, returns at once and leaves the
  whole state as it was: the size, the capacity and every element of the vector are
  unchanged.
\<close>

theorem self_assignment_noop:
  "vecs s v = Some V \<Longrightarrow>
     Vector_copy_assign T s v v = Ok () s \<and> Vector_move_assign s v v = Ok () s"
  by (simp add: Vector_copy_assign_def Vector_move_assign_def)

theorem self_assignment_noop_witness:
  "vecs two_vectors 3 \<noteq> None \<and>
   Vector_copy_assign number_traits two_vectors 3 3 = Ok () two_vectors \<and>
   Vector_move_assign two_vectors 3 3 = Ok () two_vectors"
  using self_assignment_noop[of two_vectors 3 "\<lparr>m_data = \<lparr>m_buffer = 20, m_capacity = 2\<rparr>, m_size = 2\<rparr>" number_traits]
  by (simp add: two_vectors_simps)

end
